theory Spec2Isabelle
  imports Complex_Main
begin

text \<open>
  A shallow embedding of the fleet agent (\<^verbatim>\<open>vpn_server/vpn_agent.py\<close>) and of the
  control plane's task and heartbeat handlers (\<^verbatim>\<open>central_server/web/handlers/api.py\<close>,
  \<^verbatim>\<open>keys.py\<close>, \<^verbatim>\<open>web/utils/datetime_utils.py\<close>). Functions keep the names of
  the source. Exceptions are values of a sum type, the file system, the proxy
  configuration and the task table are passed explicitly, and what the code takes from
  outside the repository (regular-expression searches, \<^verbatim>\<open>datetime.fromisoformat\<close>,
  \<^verbatim>\<open>uuid\<close>, the outcome of a subprocess or a commit) is a parameter.
\<close>

section \<open>Python values used by the agent and the control plane\<close>

text \<open>
  JSON scalars as Python reads them. Task objects and proxy client entries are Python
  dicts; they are association lists here (insertion order kept, keys distinct).
  Floats and nested values do not occur in the fields the code inspects.
\<close>

datatype jval = JNull | JBool bool | JInt int | JStr string

type_synonym jobj = "(string \<times> jval) list"

text \<open>The exceptions the modelled code raises or handles.\<close>

datatype exc = ValueError | IndexError | OSError | DatabaseError | HTTPException nat
  | AttributeError | TypeError

text \<open>Sequencing of steps that may raise.\<close>

definition and_then :: "exc + 'a \<Rightarrow> ('a \<Rightarrow> exc + 'b) \<Rightarrow> exc + 'b" where
  "and_then r f = (case r of Inl e \<Rightarrow> Inl e | Inr x \<Rightarrow> f x)"

text \<open>\<^verbatim>\<open>d.get(k, default)\<close>\<close>

definition dict_get :: "jobj \<Rightarrow> string \<Rightarrow> jval \<Rightarrow> jval" where
  "dict_get d k dflt = (case map_of d k of None \<Rightarrow> dflt | Some v \<Rightarrow> v)"

text \<open>Truthiness of a value (\<^verbatim>\<open>if email:\<close>).\<close>

fun truthy :: "jval \<Rightarrow> bool" where
  "truthy JNull = False"
| "truthy (JBool b) = b"
| "truthy (JInt n) = (n \<noteq> 0)"
| "truthy (JStr s) = (s \<noteq> [])"

fun dec_digits :: "nat \<Rightarrow> string" where
  "dec_digits n =
     (if n < 10 then [''0123456789'' ! n]
      else dec_digits (n div 10) @ [''0123456789'' ! (n mod 10)])"

text \<open>\<^verbatim>\<open>str(v)\<close>\<close>

fun py_str :: "jval \<Rightarrow> string" where
  "py_str JNull = ''None''"
| "py_str (JBool b) = (if b then ''True'' else ''False'')"
| "py_str (JInt n) = (if n < 0 then CHR ''-'' # dec_digits (nat (- n)) else dec_digits (nat n))"
| "py_str (JStr s) = s"

text \<open>
  Whitespace as \<^verbatim>\<open>str.isspace\<close> sees it on the code points below 256:
  TAB, LF, VT, FF, CR, FS, GS, RS, US, space, NEL and NBSP.
\<close>

definition is_space :: "char \<Rightarrow> bool" where
  "is_space c =
     (let n = (of_char c :: nat)
      in (9 \<le> n \<and> n \<le> 13) \<or> (28 \<le> n \<and> n \<le> 32) \<or> n = 133 \<or> n = 160)"

text \<open>\<^verbatim>\<open>s.strip()\<close>\<close>

definition strip :: "string \<Rightarrow> string" where
  "strip s = rev (dropWhile is_space (rev (dropWhile is_space s)))"

section \<open>Agent: ConfigMutator (\<^verbatim>\<open>apply_tasks\<close>)\<close>

text \<open>
  The proxy configuration in the shape xray gives it: an optional list of inbounds,
  each with a protocol and optional settings holding an optional client list. Keys the
  code never touches are left out.
\<close>

record settings =
  clients :: "jobj list option"

record inbound =
  protocol :: "jval option"
  settings :: "settings option"

record config =
  inbounds :: "inbound list option"

text \<open>The client list \<^verbatim>\<open>setdefault("settings", {}).setdefault("clients", [])\<close> returns.\<close>

definition inbound_clients :: "inbound \<Rightarrow> jobj list" where
  "inbound_clients b =
     (case settings b of None \<Rightarrow> []
      | Some s \<Rightarrow> (case clients s of None \<Rightarrow> [] | Some cs \<Rightarrow> cs))"

text \<open>\<^verbatim>\<open>c.get("id") == user_id\<close>\<close>

definition has_id :: "string \<Rightarrow> jobj \<Rightarrow> bool" where
  "has_id user_id c = (map_of c ''id'' = Some (JStr user_id))"

definition set_clients :: "inbound \<Rightarrow> jobj list \<Rightarrow> inbound" where
  "set_clients b cs = b\<lparr>settings := Some \<lparr>clients = Some cs\<rparr>\<rparr>"

definition new_item :: "string \<Rightarrow> jval \<Rightarrow> jobj" where
  "new_item user_id email =
     [(''id'', JStr user_id), (''flow'', JStr ''xtls-rprx-vision'')]
     @ (if truthy email then [(''email'', email)] else [])"

text \<open>
  The body of the inner loop for one inbound: the inbound as mutated, and whether
  \<^verbatim>\<open>changed = True\<close> was executed. Both \<^verbatim>\<open>setdefault\<close> calls run for
  every action, so the keys exist afterwards.
\<close>

definition apply_inbound :: "string \<Rightarrow> string \<Rightarrow> jval \<Rightarrow> inbound \<Rightarrow> inbound \<times> bool" where
  "apply_inbound action user_id email b =
     (let cs = inbound_clients b in
      if action = ''add_key'' then
        (if \<not> list_ex (has_id user_id) cs
         then (set_clients b (cs @ [new_item user_id email]), True)
         else (set_clients b cs, False))
      else if action = ''del_key'' then
        (let new_clients = filter (\<lambda>c. \<not> has_id user_id c) cs in
         if length new_clients \<noteq> length cs
         then (set_clients b new_clients, True)
         else (set_clients b cs, False))
      else (set_clients b cs, False))"

definition is_vless :: "inbound \<Rightarrow> bool" where
  "is_vless b = (protocol b = Some (JStr ''vless''))"

text \<open>The three values the loop body reads from a task object.\<close>

definition task_action :: "jobj \<Rightarrow> string" where
  "task_action task = strip (py_str (dict_get task ''type'' (JStr [])))"

definition task_user_id :: "jobj \<Rightarrow> string" where
  "task_user_id task = strip (py_str (dict_get task ''id'' (JStr [])))"

definition task_email :: "jobj \<Rightarrow> jval" where
  "task_email task = dict_get task ''email'' JNull"

text \<open>One iteration of \<^verbatim>\<open>for task in tasks\<close> on the state (inbounds, changed).\<close>

definition apply_task :: "jobj \<Rightarrow> inbound list \<times> bool \<Rightarrow> inbound list \<times> bool" where
  "apply_task task st =
     (let action = task_action task;
          user_id = task_user_id task;
          email = task_email task
      in if user_id = [] then st
         else
           (let rs = map (\<lambda>b. if is_vless b then apply_inbound action user_id email b
                                else (b, False)) (fst st)
            in (map fst rs, snd st \<or> list_ex snd rs)))"

definition apply_all :: "jobj list \<Rightarrow> inbound list \<Rightarrow> inbound list \<times> bool" where
  "apply_all tasks ibs = foldl (\<lambda>st t. apply_task t st) (ibs, False) tasks"

text \<open>\<^verbatim>\<open>cfg.get("inbounds", [])\<close>\<close>

definition config_inbounds :: "config \<Rightarrow> inbound list" where
  "config_inbounds cfg = (case inbounds cfg of None \<Rightarrow> [] | Some ibs \<Rightarrow> ibs)"

text \<open>
  What the host does around the mutation: whether the atomic write succeeds, and the
  exit code of \<^verbatim>\<open>systemctl reload xray\<close> (\<open>None\<close>: the call itself raised).
\<close>

record host =
  write_ok :: bool
  reload_rc :: "int option"

datatype event = WriteConfig config | Reload | Restart

text \<open>
  \<^verbatim>\<open>apply_tasks\<close>: the argument \<open>rd\<close> is the outcome of \<^verbatim>\<open>read_json\<close>
  (\<open>None\<close>: it raised, and the function returns at once). The result is the sequence of
  effects on the host.
\<close>

definition apply_tasks :: "host \<Rightarrow> jobj list \<Rightarrow> config option \<Rightarrow> event list" where
  "apply_tasks h tasks rd =
     (case rd of
        None \<Rightarrow> []
      | Some cfg \<Rightarrow>
          (let r = apply_all tasks (config_inbounds cfg);
               cfg' = (case inbounds cfg of None \<Rightarrow> cfg
                       | Some ibs \<Rightarrow> cfg\<lparr>inbounds := Some (fst r)\<rparr>)
           in if snd r then
                (if write_ok h then
                   WriteConfig cfg' # Reload #
                     (case reload_rc h of None \<Rightarrow> []
                      | Some rc \<Rightarrow> if rc \<noteq> 0 then [Restart] else [])
                 else [])
              else []))"

text \<open>How many entries of a listener carry the id \<open>k\<close>.\<close>

definition key_count :: "string \<Rightarrow> inbound \<Rightarrow> nat" where
  "key_count k b = length (filter (has_id k) (inbound_clients b))"

text \<open>The loop body for one inbound of the configuration (only vless inbounds are visited).\<close>

definition step_inbound :: "jobj \<Rightarrow> inbound \<Rightarrow> inbound \<times> bool" where
  "step_inbound task b =
     (if is_vless b then apply_inbound (task_action task) (task_user_id task) (task_email task) b
      else (b, False))"

text \<open>
  A batch in which no task, applied in delivery order, changes the client list of any
  listener.
\<close>

fun batch_noop :: "jobj list \<Rightarrow> inbound list \<Rightarrow> bool" where
  "batch_noop [] ibs = True"
| "batch_noop (t # ts) ibs =
     (map inbound_clients (fst (apply_task t (ibs, False))) = map inbound_clients ibs
      \<and> batch_noop ts (fst (apply_task t (ibs, False))))"

section \<open>Agent: \<^verbatim>\<open>apply_tasks\<close> on the configuration as read\<close>

text \<open>
  The value \<^verbatim>\<open>json.load\<close> returns, of any shape, and the accesses of
  \<^verbatim>\<open>apply_tasks\<close> that raise on a value of the wrong shape. Only \<^verbatim>\<open>read_json\<close>
  is inside the \<^verbatim>\<open>try\<close>; an exception of a later line leaves the function.
\<close>

datatype json = JsNull | JsBool bool | JsNum int | JsReal rat | JsStr string
  | JsArr "json list" | JsObj "(string \<times> json) list"

fun of_jval :: "jval \<Rightarrow> json" where
  "of_jval JNull = JsNull"
| "of_jval (JBool b) = JsBool b"
| "of_jval (JInt n) = JsNum n"
| "of_jval (JStr s) = JsStr s"

















section \<open>Agent: the pull path of \<^verbatim>\<open>run_loop\<close> and \<^verbatim>\<open>ack_tasks\<close>\<close>






section \<open>Control plane: the task queue\<close>

text \<open>
  A row of \<^verbatim>\<open>server_tasks\<close> (\<^verbatim>\<open>ServerTask\<close>); the payload and the creation
  time are never inspected and are left out. The table is the list of its rows in
  insertion order.
\<close>

record server_task =
  task_id :: int
  server_id :: string
  task_type :: string
  key_id :: string
  email :: "string option"
  status :: string

text \<open>\<^verbatim>\<open>Result.scalar_one_or_none()\<close>: more than one row raises.\<close>

datatype 'a one_or_none = NoRow | OneRow 'a | MultipleResultsFound

fun scalar_one_or_none :: "'a list \<Rightarrow> 'a one_or_none" where
  "scalar_one_or_none [] = NoRow"
| "scalar_one_or_none [x] = OneRow x"
| "scalar_one_or_none (x # y # zs) = MultipleResultsFound"

datatype response = Ok200 | Created int string | HttpError nat

text \<open>The dict \<^verbatim>\<open>get_tasks\<close> returns for a row (without the payload).\<close>

definition task_json :: "server_task \<Rightarrow> jobj" where
  "task_json t =
     [(''type'', JStr (task_type t)), (''id'', JStr (key_id t)),
      (''email'', case email t of None \<Rightarrow> JNull | Some e \<Rightarrow> JStr e),
      (''task_id'', JInt (task_id t))]"

text \<open>
  \<^verbatim>\<open>get_tasks\<close>: the pending rows of the server, by ascending id, each marked
  delivered before the response is built.
\<close>

definition get_tasks :: "string option \<Rightarrow> server_task list \<Rightarrow> jobj list \<times> server_task list" where
  "get_tasks sid_opt db =
     (case sid_opt of
        None \<Rightarrow> ([], db)
      | Some sid \<Rightarrow>
          if sid = [] then ([], db)
          else
            (let sel = (\<lambda>t. server_id t = sid \<and> status t = ''pending'');
                 tasks = sort_key task_id (filter sel db)
             in (map (\<lambda>t. task_json (t\<lparr>status := ''delivered''\<rparr>)) tasks,
                 map (\<lambda>t. if sel t then t\<lparr>status := ''delivered''\<rparr> else t) db)))"

text \<open>\<^verbatim>\<open>str.lower()\<close> on the letters A to Z.\<close>

definition py_lower :: "string \<Rightarrow> string" where
  "py_lower s =
     map (\<lambda>c. let n = (of_char c :: nat) in if 65 \<le> n \<and> n \<le> 90 then char_of (n + 32) else c) s"

text \<open>
  \<^verbatim>\<open>ack_task\<close>. The lookup is by primary key; the status of the row found is
  overwritten whatever it was.
\<close>

definition ack_task :: "int \<Rightarrow> string \<Rightarrow> server_task list \<Rightarrow> response \<times> server_task list" where
  "ack_task tid st db =
     (let s = py_lower st in
      if s \<noteq> ''done'' \<and> s \<noteq> ''failed'' then (HttpError 400, db)
      else
        (case scalar_one_or_none (filter (\<lambda>t. task_id t = tid) db) of
           NoRow \<Rightarrow> (HttpError 404, db)
         | MultipleResultsFound \<Rightarrow> (HttpError 500, db)
         | OneRow task \<Rightarrow>
             (Ok200, map (\<lambda>t. if task_id t = tid then t\<lparr>status := s\<rparr> else t) db)))"

text \<open>
  What the key handlers take from outside the repository: whether \<^verbatim>\<open>uuid.UUID\<close>
  accepts a string, the value \<^verbatim>\<open>uuid.uuid4()\<close> gives, and whether the database
  commit succeeds.
\<close>

record cp_env =
  uuid_ok :: "string \<Rightarrow> bool"
  uuid4 :: string
  commit_ok :: bool

text \<open>The \<^verbatim>\<open>where\<close> clause of the uniqueness check.\<close>

definition open_task :: "string \<Rightarrow> string \<Rightarrow> string \<Rightarrow> server_task \<Rightarrow> bool" where
  "open_task sid kid kind t =
     (server_id t = sid \<and> key_id t = kid \<and> task_type t = kind
      \<and> (status t = ''pending'' \<or> status t = ''delivered''))"

text \<open>The id an autoincrement primary key gives the next row.\<close>

definition next_id :: "server_task list \<Rightarrow> int" where
  "next_id db = fold max (map task_id db) 0 + 1"

text \<open>\<^verbatim>\<open>custom_key_id.strip() if custom_key_id and custom_key_id.strip() else str(uuid.uuid4())\<close>\<close>

definition chosen_key :: "cp_env \<Rightarrow> string option \<Rightarrow> string" where
  "chosen_key env custom =
     (case custom of
        None \<Rightarrow> uuid4 env
      | Some c \<Rightarrow> if c \<noteq> [] \<and> strip c \<noteq> [] then strip c else uuid4 env)"

text \<open>
  \<^verbatim>\<open>add_key\<close>; \<open>servers\<close> maps a registered server id to its \<^verbatim>\<open>is_active\<close>
  flag. An \<^verbatim>\<open>HTTPException\<close> is re-raised as it is, any other exception becomes 500.
\<close>

definition add_key ::
  "cp_env \<Rightarrow> (string \<times> bool) list \<Rightarrow> server_task list \<Rightarrow> string \<Rightarrow> string \<Rightarrow> string option
     \<Rightarrow> response \<times> server_task list" where
  "add_key env servers db sid user_email custom =
     (case map_of servers sid of
        None \<Rightarrow> (HttpError 404, db)
      | Some active \<Rightarrow>
          if \<not> active then (HttpError 400, db)
          else
            (let kid = chosen_key env custom in
             if \<not> uuid_ok env kid then (HttpError 400, db)
             else
               (case scalar_one_or_none (filter (open_task sid kid ''add_key'') db) of
                  MultipleResultsFound \<Rightarrow> (HttpError 500, db)
                | OneRow t \<Rightarrow> (HttpError 409, db)
                | NoRow \<Rightarrow>
                    if commit_ok env then
                      (Created (next_id db) kid,
                       db @ [\<lparr>task_id = next_id db, server_id = sid, task_type = ''add_key'',
                               key_id = kid, email = Some (strip user_email),
                               status = ''pending''\<rparr>])
                    else (HttpError 500, db))))"

definition remove_key ::
  "cp_env \<Rightarrow> (string \<times> bool) list \<Rightarrow> server_task list \<Rightarrow> string \<Rightarrow> string
     \<Rightarrow> response \<times> server_task list" where
  "remove_key env servers db sid kid =
     (case map_of servers sid of
        None \<Rightarrow> (HttpError 404, db)
      | Some active \<Rightarrow>
          if \<not> uuid_ok env kid then (HttpError 400, db)
          else
            (case scalar_one_or_none (filter (open_task sid kid ''del_key'') db) of
               MultipleResultsFound \<Rightarrow> (HttpError 500, db)
             | OneRow t \<Rightarrow> (HttpError 409, db)
             | NoRow \<Rightarrow>
                 if commit_ok env then
                   (Created (next_id db) kid,
                    db @ [\<lparr>task_id = next_id db, server_id = sid, task_type = ''del_key'',
                            key_id = kid, email = None, status = ''pending''\<rparr>])
                 else (HttpError 500, db)))"

text \<open>One request to the control plane that touches the task table.\<close>

datatype cp_call =
    AddKey cp_env "(string \<times> bool) list" string string "string option"
  | RemoveKey cp_env "(string \<times> bool) list" string string
  | GetTasks "string option"
  | AckTask int string

fun cp_step :: "cp_call \<Rightarrow> server_task list \<Rightarrow> server_task list" where
  "cp_step (AddKey env servers sid em custom) db = snd (add_key env servers db sid em custom)"
| "cp_step (RemoveKey env servers sid kid) db = snd (remove_key env servers db sid kid)"
| "cp_step (GetTasks sid) db = snd (get_tasks sid db)"
| "cp_step (AckTask tid st) db = snd (ack_task tid st db)"

text \<open>The tables the handlers can produce from the empty table.\<close>

inductive reachable :: "server_task list \<Rightarrow> bool" where
  empty: "reachable []"
| step: "reachable db \<Longrightarrow> reachable (cp_step c db)"

section \<open>Control plane: heartbeat ingestion\<close>

text \<open>
  \<^verbatim>\<open>parse_timestamp\<close>: every \<^verbatim>\<open>Z\<close> becomes \<^verbatim>\<open>+00:00\<close>, then
  \<^verbatim>\<open>datetime.fromisoformat\<close> (a parameter; \<open>None\<close> stands for its ValueError).
\<close>

definition replace_Z :: "string \<Rightarrow> string" where
  "replace_Z s = concat (map (\<lambda>c. if c = CHR ''Z'' then ''+00:00'' else [c]) s)"

definition parse_timestamp :: "(string \<Rightarrow> 't option) \<Rightarrow> string \<Rightarrow> exc + 't" where
  "parse_timestamp fromisoformat timestamp_str =
     (case fromisoformat (replace_Z timestamp_str) of
        None \<Rightarrow> Inl ValueError
      | Some d \<Rightarrow> Inr d)"

text \<open>The two timestamps of a \<^verbatim>\<open>HeartbeatRequest\<close>; the metrics play no part.\<close>

record heartbeat_request =
  hb_server_id :: string
  generated_at :: string
  ready_at :: string

text \<open>
  The inner \<^verbatim>\<open>try\<close>: a ValueError of either parse is turned into
  \<^verbatim>\<open>HTTPException(status_code=400)\<close>.
\<close>

definition parse_both :: "(string \<Rightarrow> 't option) \<Rightarrow> heartbeat_request \<Rightarrow> exc + ('t \<times> 't)" where
  "parse_both fromisoformat hb =
     (case parse_timestamp fromisoformat (generated_at hb) of
        Inl ValueError \<Rightarrow> Inl (HTTPException 400)
      | Inl e \<Rightarrow> Inl e
      | Inr g \<Rightarrow>
          (case parse_timestamp fromisoformat (ready_at hb) of
             Inl ValueError \<Rightarrow> Inl (HTTPException 400)
           | Inl e \<Rightarrow> Inl e
           | Inr r \<Rightarrow> Inr (g, r)))"

text \<open>
  The body of the outer \<^verbatim>\<open>try\<close>: the parse, then add, commit and refresh, which
  give the id of the new record or raise.
\<close>

definition heartbeat_body ::
  "(string \<Rightarrow> 't option) \<Rightarrow> bool \<Rightarrow> int \<Rightarrow> heartbeat_request \<Rightarrow> exc + int" where
  "heartbeat_body fromisoformat db_ok new_id hb =
     (case parse_both fromisoformat hb of
        Inl e \<Rightarrow> Inl e
      | Inr ts \<Rightarrow> if db_ok then Inr new_id else Inl DatabaseError)"

text \<open>
  \<^verbatim>\<open>receive_heartbeat\<close>: the outer handler is \<^verbatim>\<open>except Exception\<close>, which
  catches whatever the body raised, rolls back and raises
  \<^verbatim>\<open>HTTPException(status_code=500)\<close>.
\<close>

definition receive_heartbeat ::
  "(string \<Rightarrow> 't option) \<Rightarrow> bool \<Rightarrow> int \<Rightarrow> heartbeat_request \<Rightarrow> exc + int" where
  "receive_heartbeat fromisoformat db_ok new_id hb =
     (case heartbeat_body fromisoformat db_ok new_id hb of
        Inl e \<Rightarrow> Inl (HTTPException 500)
      | Inr heartbeat_id \<Rightarrow> Inr heartbeat_id)"

section \<open>Agent: text helpers of the sampling code\<close>

text \<open>
  \<^verbatim>\<open>str.splitlines()\<close> on the code points below 256: a line ends at LF, VT, FF,
  CR (CR LF counts once), FS, GS, RS or NEL; no empty last line.
\<close>

definition is_linebreak :: "char \<Rightarrow> bool" where
  "is_linebreak c =
     (let n = (of_char c :: nat) in (10 \<le> n \<and> n \<le> 13) \<or> (28 \<le> n \<and> n \<le> 30) \<or> n = 133)"

fun splitlines_from :: "string \<Rightarrow> string \<Rightarrow> string list" where
  "splitlines_from cur [] = (if cur = [] then [] else [rev cur])"
| "splitlines_from cur (c # cs) =
     (if c = CHR 0x0D then
        (case cs of
           [] \<Rightarrow> [rev cur]
         | d # ds \<Rightarrow> if d = CHR 0x0A then rev cur # splitlines_from [] ds
                     else rev cur # splitlines_from [] cs)
      else if is_linebreak c then rev cur # splitlines_from [] cs
      else splitlines_from (c # cur) cs)"

definition splitlines :: "string \<Rightarrow> string list" where
  "splitlines s = splitlines_from [] s"

text \<open>\<^verbatim>\<open>str.split()\<close>: the maximal runs of non-whitespace.\<close>

fun split_from :: "string \<Rightarrow> string \<Rightarrow> string list" where
  "split_from cur [] = (if cur = [] then [] else [rev cur])"
| "split_from cur (c # cs) =
     (if is_space c then (if cur = [] then split_from [] cs else rev cur # split_from [] cs)
      else split_from (c # cur) cs)"

definition py_split :: "string \<Rightarrow> string list" where
  "py_split s = split_from [] s"

text \<open>
  \<^verbatim>\<open>re.split(r"[:\s]+", s)\<close>: the pieces between maximal runs of colons and
  whitespace, empty pieces at the ends included.
\<close>

definition is_sep :: "char \<Rightarrow> bool" where
  "is_sep c = (c = CHR '':'' \<or> is_space c)"

fun re_split_from :: "bool \<Rightarrow> string \<Rightarrow> string \<Rightarrow> string list" where
  "re_split_from in_sep cur [] = [rev cur]"
| "re_split_from in_sep cur (c # cs) =
     (if is_sep c then
        (if in_sep then re_split_from True [] cs else rev cur # re_split_from True [] cs)
      else re_split_from False (c # cur) cs)"

definition re_split_seps :: "string \<Rightarrow> string list" where
  "re_split_seps s = re_split_from False [] s"

text \<open>
  \<^verbatim>\<open>int(s)\<close> for a string: surrounding whitespace, an optional sign, decimal digits
  with single underscores between them; anything else is a ValueError.
\<close>

definition is_digit :: "char \<Rightarrow> bool" where
  "is_digit c = (let n = (of_char c :: nat) in 48 \<le> n \<and> n \<le> 57)"

fun digits_ok :: "string \<Rightarrow> bool" where
  "digits_ok [] = False"
| "digits_ok [c] = is_digit c"
| "digits_ok (c # d # ds) =
     (is_digit c \<and> (if d = CHR ''_'' then digits_ok ds else digits_ok (d # ds)))"

definition digits_value :: "string \<Rightarrow> nat" where
  "digits_value ds = foldl (\<lambda>acc c. 10 * acc + (of_char c - 48)) 0 (filter is_digit ds)"

definition py_int :: "string \<Rightarrow> exc + int" where
  "py_int s =
     (let t = strip s;
          neg = (t \<noteq> [] \<and> hd t = CHR ''-'');
          body = (if t \<noteq> [] \<and> (hd t = CHR ''-'' \<or> hd t = CHR ''+'') then tl t else t)
      in if digits_ok body
         then Inr (if neg then - int (digits_value body) else int (digits_value body))
         else Inl ValueError)"

text \<open>\<^verbatim>\<open>list(map(int, xs))\<close>: the first failure is raised.\<close>

fun map_int :: "string list \<Rightarrow> exc + int list" where
  "map_int [] = Inr []"
| "map_int (x # xs) =
     (case py_int x of
        Inl e \<Rightarrow> Inl e
      | Inr n \<Rightarrow> (case map_int xs of Inl e \<Rightarrow> Inl e | Inr ns \<Rightarrow> Inr (n # ns)))"

text \<open>\<^verbatim>\<open>xs[i]\<close> for \<open>i \<ge> 0\<close>.\<close>

definition py_index :: "'a list \<Rightarrow> nat \<Rightarrow> exc + 'a" where
  "py_index xs i = (if i < length xs then Inr (xs ! i) else Inl IndexError)"

text \<open>
  Python floats are taken as exact rationals. \<^verbatim>\<open>round(x)\<close> rounds to the nearest
  integer, a tie to the even one; \<^verbatim>\<open>round(x, n)\<close> does so at \<open>n\<close> decimals;
  \<^verbatim>\<open>int(x)\<close> cuts the fraction off.
\<close>

definition py_round :: "rat \<Rightarrow> int" where
  "py_round x =
     (let f = \<lfloor>x\<rfloor>; d = x - of_int f
      in if d < 1 / 2 then f else if 1 / 2 < d then f + 1 else if even f then f else f + 1)"

definition py_round_to :: "nat \<Rightarrow> rat \<Rightarrow> rat" where
  "py_round_to n x = of_int (py_round (x * 10 ^ n)) / 10 ^ n"

definition py_trunc :: "rat \<Rightarrow> int" where
  "py_trunc x = (if 0 \<le> x then \<lfloor>x\<rfloor> else \<lceil>x\<rceil>)"

section \<open>Agent: CounterSampler\<close>

text \<open>
  A path of the file system as \<^verbatim>\<open>open\<close> finds it: absent, present but not
  readable, or readable with its content.
\<close>

datatype proc_file = Missing | Unreadable | Content string

text \<open>\<^verbatim>\<open>read_proc\<close>: only \<^verbatim>\<open>FileNotFoundError\<close> is handled.\<close>

definition read_proc :: "(string \<Rightarrow> proc_file) \<Rightarrow> string \<Rightarrow> exc + string" where
  "read_proc fs path =
     (case fs path of
        Missing \<Rightarrow> Inr []
      | Unreadable \<Rightarrow> Inl OSError
      | Content text \<Rightarrow> Inr text)"

text \<open>
  \<^verbatim>\<open>read_dev_counters\<close>: the loop over \<^verbatim>\<open>data[2:]\<close>. The returned tuple reads
  \<^verbatim>\<open>nums[0]\<close> to \<^verbatim>\<open>nums[11]\<close>, so fewer than twelve numbers raise IndexError.
\<close>

type_synonym dev_counters = "int \<times> int \<times> int \<times> int \<times> int \<times> int \<times> int \<times> int"

fun scan_dev :: "string \<Rightarrow> string list \<Rightarrow> exc + dev_counters" where
  "scan_dev iface [] = Inr (0, 0, 0, 0, 0, 0, 0, 0)"
| "scan_dev iface (line # rest) =
     (let parts = re_split_seps (strip line) in
      if parts = [] then scan_dev iface rest
      else if hd parts = iface then
        and_then (map_int (tl parts))
          (\<lambda>nums. if length nums < 12 then Inl IndexError
                   else Inr (nums ! 0, nums ! 1, nums ! 2, nums ! 3,
                             nums ! 8, nums ! 9, nums ! 10, nums ! 11))
      else scan_dev iface rest)"

definition read_dev_counters :: "(string \<Rightarrow> proc_file) \<Rightarrow> string \<Rightarrow> exc + dev_counters" where
  "read_dev_counters fs iface =
     and_then (read_proc fs ''/proc/net/dev'')
       (\<lambda>text. scan_dev iface (drop 2 (splitlines text)))"

text \<open>\<^verbatim>\<open>read_cpu\<close>, the local function of \<^verbatim>\<open>cpu_sample\<close>.\<close>

definition read_cpu :: "(string \<Rightarrow> proc_file) \<Rightarrow> exc + int list" where
  "read_cpu fs =
     and_then (read_proc fs ''/proc/stat'')
       (\<lambda>text. and_then (py_index (splitlines text) 0)
          (\<lambda>line. map_int (drop 1 (py_split line))))"

text \<open>
  \<^verbatim>\<open>cpu_sample\<close>; \<open>fs_a\<close> and \<open>fs_b\<close> are the file system at the two reads,
  0.2 seconds apart.
\<close>

definition cpu_sample :: "(string \<Rightarrow> proc_file) \<Rightarrow> (string \<Rightarrow> proc_file) \<Rightarrow> exc + rat \<times> rat" where
  "cpu_sample fs_a fs_b =
     and_then (read_cpu fs_a) (\<lambda>a.
     and_then (read_cpu fs_b) (\<lambda>b.
     and_then (py_index a 3) (\<lambda>a3.
     and_then (py_index a 4) (\<lambda>a4.
     and_then (py_index b 3) (\<lambda>b3.
     and_then (py_index b 4) (\<lambda>b4.
       (let idle_a = a3 + a4;
            idle_b = b3 + b4;
            total_a = sum_list a;
            total_b = sum_list b;
            total = max 1 (total_b - total_a);
            busy = total - (idle_b - idle_a)
        in and_then (py_index b 6) (\<lambda>b6.
           and_then (py_index a 6) (\<lambda>a6.
             (let softirq_delta = b6 - a6;
                  cpu_pct = py_round_to 1 (of_int (busy * 100) / of_int total);
                  softirq_pct = py_round_to 1 (of_int (softirq_delta * 100) / of_int total)
              in Inr (cpu_pct, softirq_pct)))))))))))"

text \<open>
  The sampling of one loop iteration after the gauges: \<^verbatim>\<open>cpu_sample\<close>, then the
  interface counters when an interface is configured. Nothing in \<^verbatim>\<open>run_loop\<close>
  handles an exception of these calls, so an \<open>Inl\<close> here ends the loop before the
  heartbeat is sent.
\<close>

definition sample_step ::
  "(string \<Rightarrow> proc_file) \<Rightarrow> (string \<Rightarrow> proc_file) \<Rightarrow> (string \<Rightarrow> proc_file) \<Rightarrow> string
     \<Rightarrow> exc + (rat \<times> rat) \<times> dev_counters" where
  "sample_step fs_a fs_b fs net_iface =
     and_then (cpu_sample fs_a fs_b) (\<lambda>cpu.
     and_then (if net_iface \<noteq> [] then read_dev_counters fs net_iface
               else Inr (0, 0, 0, 0, 0, 0, 0, 0)) (\<lambda>dev.
       Inr (cpu, dev)))"

section \<open>Agent: RateEstimator\<close>

text \<open>The previous sample kept across iterations, and the readings of this iteration.\<close>

record loop_state =
  last_ts :: int
  last_rx_bytes :: int
  last_tx_bytes :: int
  last_rx_pkts :: int
  last_tx_pkts :: int
  last_active_opens :: int
  last_passive_opens :: int

record reading =
  now :: int
  rx_bytes :: int
  tx_bytes :: int
  rx_pkts :: int
  tx_pkts :: int
  active_opens :: int
  passive_opens :: int

record rate_fields =
  bw_rx_mbps :: rat
  bw_tx_mbps :: rat
  pps_rx :: int
  pps_tx :: int
  conn_est_rate :: int

text \<open>Lines 303 to 320 of \<^verbatim>\<open>run_loop\<close>.\<close>

definition derive_rates :: "loop_state \<Rightarrow> string \<Rightarrow> reading \<Rightarrow> rate_fields" where
  "derive_rates st net_iface r =
     (let elapsed = (last_ts st > 0 \<and> now r > last_ts st);
          dt = max 1 (now r - last_ts st);
          delta = (active_opens r - last_active_opens st)
                  + (passive_opens r - last_passive_opens st)
      in \<lparr>bw_rx_mbps =
            (if elapsed \<and> net_iface \<noteq> []
             then py_round_to 2 (of_int ((rx_bytes r - last_rx_bytes st) * 8) / of_int (dt * 1000000))
             else 0),
          bw_tx_mbps =
            (if elapsed \<and> net_iface \<noteq> []
             then py_round_to 2 (of_int ((tx_bytes r - last_tx_bytes st) * 8) / of_int (dt * 1000000))
             else 0),
          pps_rx =
            (if elapsed \<and> net_iface \<noteq> []
             then max 0 (py_trunc (of_int (rx_pkts r - last_rx_pkts st) / of_int dt))
             else 0),
          pps_tx =
            (if elapsed \<and> net_iface \<noteq> []
             then max 0 (py_trunc (of_int (tx_pkts r - last_tx_pkts st) / of_int dt))
             else 0),
          conn_est_rate =
            (if elapsed then max 0 (py_trunc (of_int delta / of_int dt)) else 0)\<rparr>)"

section \<open>Agent: LatencyProbe\<close>

text \<open>
  How the ping subprocess ended, and \<^verbatim>\<open>run_cmd\<close>: the exit code and standard
  output; a timeout or a failure to start gives exit code 1 and no output.
\<close>

datatype proc_result = Exited int string | TimedOut | SpawnFailed

fun run_cmd :: "proc_result \<Rightarrow> int \<times> string" where
  "run_cmd (Exited rc out) = (rc, out)"
| "run_cmd TimedOut = (1, [])"
| "run_cmd SpawnFailed = (1, [])"

text \<open>\<^verbatim>\<open>pct\<close>, the local function of \<^verbatim>\<open>measure_ping\<close>, on the sorted samples.\<close>

definition pct :: "rat list \<Rightarrow> rat \<Rightarrow> rat" where
  "pct rtts p =
     (if rtts = [] then 0
      else
        (let idx = py_round (of_int (int (length rtts) - 1) * p)
         in rtts ! nat (min (max idx 0) (int (length rtts) - 1))))"

text \<open>
  \<^verbatim>\<open>measure_ping\<close>. The two regular-expression searches are parameters:
  \<open>loss_re out\<close> is the number before \<^verbatim>\<open>% packet loss\<close> in the output, and
  \<open>time_re line\<close> the number of \<^verbatim>\<open>time=... ms\<close> in a line, each \<open>None\<close> when
  the pattern does not match. The result is (p50, p95, loss).
\<close>

definition measure_ping ::
  "(string \<Rightarrow> rat option) \<Rightarrow> (string \<Rightarrow> rat option) \<Rightarrow> proc_result \<Rightarrow> rat \<times> rat \<times> rat" where
  "measure_ping loss_re time_re pr =
     (let rc = fst (run_cmd pr); out = snd (run_cmd pr) in
      if rc \<noteq> 0 then (0, 0, 100)
      else
        (let loss_pct = (case loss_re out of None \<Rightarrow> 100 | Some l \<Rightarrow> l);
             rtts = List.map_filter time_re (splitlines out)
         in if rtts = [] then (0, 0, loss_pct)
            else (pct (sort rtts) (1 / 2), pct (sort rtts) (95 / 100), loss_pct)))"

text \<open>
  Nearest-rank selection in the words of the design: the index is
  \<open>round (p \<times> (n - 1))\<close>, clamped to \<open>[0, n - 1]\<close>.
\<close>

definition nearest_rank :: "nat \<Rightarrow> rat \<Rightarrow> nat" where
  "nearest_rank n p = nat (min (max (py_round (p * of_int (int n - 1))) 0) (int n - 1))"

section \<open>Example inputs\<close>

text \<open>Concrete tasks, configurations, queues and probe outputs used in the evaluations below.\<close>

definition ex_add :: jobj where
  "ex_add = [(''type'', JStr ''add_key''), (''id'', JStr ''k1''), (''email'', JStr ''a@b.c'')]"

definition ex_del :: jobj where
  "ex_del = [(''type'', JStr ''del_key''), (''id'', JStr ''k1'')]"

definition ex_state :: "inbound list \<times> bool" where
  "ex_state =
     ([\<lparr>protocol = Some (JStr ''vless''), settings = Some \<lparr>clients = Some []\<rparr>\<rparr>], False)"

definition ex_config :: config where
  "ex_config =
     \<lparr>inbounds = Some [\<lparr>protocol = Some (JStr ''vless''),
        settings = Some \<lparr>clients = Some [[(''id'', JStr ''k1'')]]\<rparr>\<rparr>]\<rparr>"

definition ex_host :: host where
  "ex_host = \<lparr>write_ok = True, reload_rc = Some 1\<rparr>"

definition ex_env :: cp_env where
  "ex_env = \<lparr>uuid_ok = (\<lambda>s. length s = 2), uuid4 = ''k0'', commit_ok = True\<rparr>"

definition ex_servers :: "(string \<times> bool) list" where
  "ex_servers = [(''s1'', True)]"

definition ex_queue :: "server_task list" where
  "ex_queue = cp_step (AddKey ex_env ex_servers ''s1'' ''a@b.c'' (Some '' k1 '')) []"

definition ex_row :: server_task where
  "ex_row = \<lparr>task_id = 1, server_id = ''s1'', task_type = ''add_key'', key_id = ''k'',
             email = None, status = ''pending''\<rparr>"

definition ex_ping_output :: string where
  "ex_ping_output = ''c'' @ [CHR 0x0A] @ ''a'' @ [CHR 0x0A] @ ''d'' @ [CHR 0x0A] @ ''b'' @ [CHR 0x0A]"

definition ex_time_re :: "string \<Rightarrow> rat option" where
  "ex_time_re = map_of [(''a'', 10), (''b'', 20), (''c'', 30), (''d'', 40)]"

definition ex_net_dev :: "string \<Rightarrow> string" where
  "ex_net_dev eth0_line =
     ''Inter-|   Receive'' @ [CHR 0x0A] @ '' face |bytes'' @ [CHR 0x0A] @ eth0_line @ [CHR 0x0A]"

definition ex_fs_no_stat :: "string \<Rightarrow> proc_file" where
  "ex_fs_no_stat p =
     (if p = ''/proc/net/dev''
      then Content (ex_net_dev ''  eth0: 100 2 0 0 0 0 0 0 300 4 0 0 0 0 0 0'')
      else Missing)"

definition ex_fs_bad_dev :: "string \<Rightarrow> proc_file" where
  "ex_fs_bad_dev p =
     (if p = ''/proc/stat'' then Content ''cpu  100 0 50 800 50 0 10 0 0 0''
      else if p = ''/proc/net/dev''
      then Content (ex_net_dev ''  eth0: 100 2 0 0 n/a 0 0 0 300 4 0 0 0 0 0 0'')
      else Missing)"

definition ex_fs_good :: "string \<Rightarrow> string \<Rightarrow> proc_file" where
  "ex_fs_good stat_line p =
     (if p = ''/proc/stat'' then Content stat_line
      else if p = ''/proc/net/dev''
      then Content (ex_net_dev ''  eth0: 100 2 0 0 0 0 0 0 300 4 0 0 0 0 0 0'')
      else Missing)"

definition ex_last :: loop_state where
  "ex_last =
     \<lparr>last_ts = 100, last_rx_bytes = 1000000, last_tx_bytes = 100000, last_rx_pkts = 500,
      last_tx_pkts = 400, last_active_opens = 10, last_passive_opens = 10\<rparr>"

definition ex_reading :: reading where
  "ex_reading =
     \<lparr>now = 101, rx_bytes = 0, tx_bytes = 0, rx_pkts = 0, tx_pkts = 0,
      active_opens = 0, passive_opens = 0\<rparr>"

definition ex_table :: "server_task list" where
  "ex_table =
     [\<lparr>task_id = 1, server_id = ''s1'', task_type = ''add_key'', key_id = ''k1'',
        email = None, status = ''pending''\<rparr>,
      \<lparr>task_id = 2, server_id = ''s1'', task_type = ''add_key'', key_id = ''k2'',
        email = None, status = ''delivered''\<rparr>,
      \<lparr>task_id = 3, server_id = ''s1'', task_type = ''add_key'', key_id = ''k3'',
        email = None, status = ''done''\<rparr>,
      \<lparr>task_id = 4, server_id = ''s2'', task_type = ''del_key'', key_id = ''k4'',
        email = None, status = ''failed''\<rparr>]"





section \<open>ConfigMutator: idempotence and the changed flag\<close>

lemma inbound_clients_set_clients [simp]: "inbound_clients (set_clients b cs) = cs"
  by (simp add: inbound_clients_def set_clients_def)

lemma set_clients_idem [simp]: "set_clients (set_clients b cs) cs' = set_clients b cs'"
  by (simp add: set_clients_def)

lemma is_vless_set_clients [simp]: "is_vless (set_clients b cs) = is_vless b"
  by (simp add: is_vless_def set_clients_def)

lemma has_id_new_item [simp]: "has_id k (new_item k e)"
  by (simp add: has_id_def new_item_def)

lemma list_ex_filter_length: "list_ex P xs \<longleftrightarrow> 0 < length (filter P xs)"
  by (induction xs) auto

lemma filter_not_length: "length (filter (\<lambda>c. \<not> P c) xs) = length xs \<longleftrightarrow> \<not> list_ex P xs"
proof -
  have "length (filter P xs) + length (filter (\<lambda>c. \<not> P c) xs) = length xs"
    by (rule sum_length_filter_compl)
  then show ?thesis
    by (auto simp: list_ex_filter_length)
qed

lemma filter_not_id: "\<not> list_ex P xs \<Longrightarrow> filter (\<lambda>c. \<not> P c) xs = xs"
  by (induction xs) auto

lemma add_inbound_clients:
  "inbound_clients (fst (apply_inbound ''add_key'' k e b)) =
     (if list_ex (has_id k) (inbound_clients b) then inbound_clients b
      else inbound_clients b @ [new_item k e])"
  by (simp add: apply_inbound_def Let_def)

lemma add_inbound_count:
  "key_count k (fst (apply_inbound ''add_key'' k e b)) = max 1 (key_count k b)"
proof (cases "list_ex (has_id k) (inbound_clients b)")
  case True
  then have pos: "0 < key_count k b"
    by (simp add: key_count_def list_ex_filter_length)
  have "key_count k (fst (apply_inbound ''add_key'' k e b)) = key_count k b"
    using True by (simp add: key_count_def add_inbound_clients)
  with pos show ?thesis by arith
next
  case False
  then have zero: "key_count k b = 0"
    by (simp add: key_count_def list_ex_filter_length)
  have "key_count k (fst (apply_inbound ''add_key'' k e b)) = key_count k b + 1"
    using False by (simp add: key_count_def add_inbound_clients)
  with zero show ?thesis by arith
qed

lemma add_inbound_twice:
  "apply_inbound ''add_key'' k e (fst (apply_inbound ''add_key'' k e b)) =
     (fst (apply_inbound ''add_key'' k e b), False)"
  by (simp add: apply_inbound_def Let_def)

lemma is_vless_apply_inbound [simp]: "is_vless (fst (apply_inbound a k e b)) = is_vless b"
  by (simp add: apply_inbound_def Let_def)

lemma del_inbound_clients:
  "inbound_clients (fst (apply_inbound ''del_key'' k e b)) = filter (\<lambda>c. \<not> has_id k c) (inbound_clients b)"
  by (auto simp: apply_inbound_def Let_def filter_not_length filter_not_id)

lemma del_inbound_flag:
  "snd (apply_inbound ''del_key'' k e b) \<longleftrightarrow> list_ex (has_id k) (inbound_clients b)"
  by (auto simp: apply_inbound_def Let_def filter_not_length)

lemma del_inbound_count: "key_count k (fst (apply_inbound ''del_key'' k e b)) = 0"
  by (simp add: key_count_def del_inbound_clients)

lemma apply_task_step:
  "task_user_id t \<noteq> [] \<Longrightarrow>
   apply_task t st = (map (\<lambda>b. fst (step_inbound t b)) (fst st),
                      snd st \<or> list_ex (\<lambda>b. snd (step_inbound t b)) (fst st))"
  by (auto simp: apply_task_def step_inbound_def Let_def list_ex_iff)

lemma is_vless_step [simp]: "is_vless (fst (step_inbound t b)) = is_vless b"
  by (simp add: step_inbound_def)

lemma step_add_twice:
  "task_action t = ''add_key'' \<Longrightarrow>
   step_inbound t (fst (step_inbound t b)) = (fst (step_inbound t b), False)"
  by (simp add: step_inbound_def add_inbound_twice)

lemma filter_vless_step:
  "filter is_vless (map (\<lambda>b. fst (step_inbound t b)) xs) =
   map (\<lambda>b. fst (step_inbound t b)) (filter is_vless xs)"
  by (induction xs) auto

lemma step_add_count:
  "task_action t = ''add_key'' \<Longrightarrow>
   map (key_count (task_user_id t)) (filter is_vless (map (\<lambda>b. fst (step_inbound t b)) xs)) =
   map (\<lambda>b. max 1 (key_count (task_user_id t) b)) (filter is_vless xs)"
  by (induction xs) (auto simp: step_inbound_def add_inbound_count)

text \<open>
  C1 (as amended). Let \<open>k\<close> be the non-empty key a task carries after trimming. Applying
  the same add_key task twice gives the same state as applying it once, and every vless
  listener then holds \<open>max 1 c\<close> entries with id \<open>k\<close>, where \<open>c\<close> is the
  number it held before: exactly one whenever it held at most one. A del_key task for a
  key that no vless listener holds changes no client list and leaves the changed flag
  as it was. After add_key then del_key for the same key no vless listener holds an
  entry with that id.
\<close>

theorem add_del_idempotent:
  assumes add: "task_action ta = ''add_key''" "task_user_id ta = k"
    and del: "task_action td = ''del_key''" "task_user_id td = k"
    and k: "k \<noteq> []"
  shows "apply_task ta (apply_task ta st) = apply_task ta st
       \<and> map (key_count k) (filter is_vless (fst (apply_task ta st))) =
           map (\<lambda>b. max 1 (key_count k b)) (filter is_vless (fst st))
       \<and> ((\<forall>b\<in>set (fst st). is_vless b \<longrightarrow> key_count k b = 0) \<longrightarrow>
            map inbound_clients (fst (apply_task td st)) = map inbound_clients (fst st)
            \<and> snd (apply_task td st) = snd st)
       \<and> (\<forall>b\<in>set (fst (apply_task td (apply_task ta st))). is_vless b \<longrightarrow> key_count k b = 0)"
proof -
  have na: "task_user_id ta \<noteq> []" and nd: "task_user_id td \<noteq> []"
    using add del k by simp_all
  have twice: "apply_task ta (apply_task ta st) = apply_task ta st"
    using add(1) by (simp add: apply_task_step [OF na] step_add_twice list_ex_iff)
  have count: "map (key_count k) (filter is_vless (fst (apply_task ta st))) =
      map (\<lambda>b. max 1 (key_count k b)) (filter is_vless (fst st))"
    using add step_add_count [of ta "fst st"] by (simp add: apply_task_step [OF na])
  have absent: "map inbound_clients (fst (apply_task td st)) = map inbound_clients (fst st)
      \<and> snd (apply_task td st) = snd st"
    if none: "\<forall>b\<in>set (fst st). is_vless b \<longrightarrow> key_count k b = 0"
  proof -
    have a: "\<not> list_ex (has_id k) (inbound_clients b)" if "b \<in> set (fst st)" "is_vless b" for b
      using none that by (simp add: key_count_def list_ex_filter_length)
    have c: "inbound_clients (fst (step_inbound td b)) = inbound_clients b"
      and f: "\<not> snd (step_inbound td b)" if "b \<in> set (fst st)" for b
      using a [OF that] del
      by (auto simp: step_inbound_def del_inbound_clients del_inbound_flag filter_not_id)
    show ?thesis
      using c f by (simp add: apply_task_step [OF nd] list_ex_iff)
  qed
  have gone: "\<forall>b\<in>set (fst (apply_task td (apply_task ta st))). is_vless b \<longrightarrow> key_count k b = 0"
    using del by (auto simp: apply_task_step [OF nd] step_inbound_def del_inbound_count)
  from twice count absent gone show ?thesis by blast
qed

theorem add_del_idempotent_witness:
  "task_action ex_add = ''add_key''
   \<and> task_user_id ex_add = ''k1''
   \<and> task_action ex_del = ''del_key''
   \<and> task_user_id ex_del = ''k1''
   \<and> ''k1'' \<noteq> []
   \<and> map (key_count ''k1'') (filter is_vless (fst ex_state)) = [0]
   \<and> apply_task ex_add (apply_task ex_add ex_state) = apply_task ex_add ex_state
   \<and> map (key_count ''k1'') (filter is_vless (fst (apply_task ex_add ex_state))) = [1]
   \<and> map inbound_clients (fst (apply_task ex_del ex_state)) = map inbound_clients (fst ex_state)
   \<and> snd (apply_task ex_del ex_state) = snd ex_state
   \<and> map (key_count ''k1'') (fst (apply_task ex_del (apply_task ex_add ex_state))) = [0]"
proof -
  have h1: "task_action ex_add = ''add_key''"
    by code_simp
  have h2: "task_user_id ex_add = ''k1''"
    by code_simp
  have h3: "task_action ex_del = ''del_key''"
    by code_simp
  have h4: "task_user_id ex_del = ''k1''"
    by code_simp
  have h5: "''k1'' \<noteq> []"
    by simp
  have h6: "\<forall>b\<in>set (fst ex_state). is_vless b \<longrightarrow> key_count ''k1'' b = 0"
    by (simp add: ex_state_def key_count_def inbound_clients_def)
  have e0: "map (key_count ''k1'') (filter is_vless (fst ex_state)) = [0]"
    by code_simp
  have e1: "map (\<lambda>b. max 1 (key_count ''k1'' b)) (filter is_vless (fst ex_state)) = [1]"
    by code_simp
  have e2: "map (key_count ''k1'') (fst (apply_task ex_del (apply_task ex_add ex_state))) = [0]"
    by code_simp
  note t = add_del_idempotent [OF h1 h2 h3 h4 h5, of ex_state]
  from t have a: "apply_task ex_add (apply_task ex_add ex_state) = apply_task ex_add ex_state"
    by blast
  from t have "map (key_count ''k1'') (filter is_vless (fst (apply_task ex_add ex_state))) =
      map (\<lambda>b. max 1 (key_count ''k1'' b)) (filter is_vless (fst ex_state))"
    by blast
  with e1 have b: "map (key_count ''k1'') (filter is_vless (fst (apply_task ex_add ex_state))) = [1]"
    by (rule trans [rotated])
  from t h6
  have c: "map inbound_clients (fst (apply_task ex_del ex_state)) = map inbound_clients (fst ex_state)
      \<and> snd (apply_task ex_del ex_state) = snd ex_state"
    by blast
  from h1 h2 h3 h4 h5 e0 a b c e2 show ?thesis
    by blast
qed

text \<open>
  The claim as stated fails on two inputs: a listener that already lists the key twice
  keeps both entries, and a task whose key is blank is skipped altogether.
\<close>

theorem add_twice_not_exactly_one:
  "map (key_count ''k1'')
     (fst (apply_task [(''type'', JStr ''add_key''), (''id'', JStr ''k1'')]
        (apply_task [(''type'', JStr ''add_key''), (''id'', JStr ''k1'')]
           ([\<lparr>protocol = Some (JStr ''vless''),
              settings = Some \<lparr>clients = Some [[(''id'', JStr ''k1'')],
                [(''id'', JStr ''k1''), (''email'', JStr ''x'')]]\<rparr>\<rparr>], False)))) = [2]
   \<and> map (key_count '' '')
     (fst (apply_task [(''type'', JStr ''add_key''), (''id'', JStr '' '')]
        (apply_task [(''type'', JStr ''add_key''), (''id'', JStr '' '')]
           ([\<lparr>protocol = Some (JStr ''vless''), settings = Some \<lparr>clients = Some []\<rparr>\<rparr>], False)))) = [0]"
  by code_simp


lemma apply_inbound_flag:
  "snd (apply_inbound a k e b) \<longleftrightarrow> inbound_clients (fst (apply_inbound a k e b)) \<noteq> inbound_clients b"
proof -
  have "filter (\<lambda>c. \<not> has_id k c) (inbound_clients b) = inbound_clients b"
    if "length (filter (\<lambda>c. \<not> has_id k c) (inbound_clients b)) = length (inbound_clients b)"
    using that by (simp add: filter_not_length filter_not_id)
  then show ?thesis
    by (auto simp: apply_inbound_def Let_def)
qed

lemma step_inbound_flag:
  "snd (step_inbound t b) \<longleftrightarrow> inbound_clients (fst (step_inbound t b)) \<noteq> inbound_clients b"
  by (simp add: step_inbound_def apply_inbound_flag)

lemma map_clients_neq:
  "map inbound_clients (map (\<lambda>b. fst (step_inbound t b)) xs) \<noteq> map inbound_clients xs
   \<longleftrightarrow> list_ex (\<lambda>b. snd (step_inbound t b)) xs"
  by (induction xs) (auto simp: step_inbound_flag)

lemma apply_task_fst: "fst (apply_task t (ibs, ch)) = fst (apply_task t (ibs, False))"
  by (simp add: apply_task_def Let_def)

lemma apply_task_snd:
  "snd (apply_task t (ibs, ch)) \<longleftrightarrow>
     ch \<or> map inbound_clients (fst (apply_task t (ibs, False))) \<noteq> map inbound_clients ibs"
proof (cases "task_user_id t = []")
  case True
  then show ?thesis by (simp add: apply_task_def)
next
  case False
  show ?thesis
    unfolding apply_task_step [OF False] by (simp only: fst_conv snd_conv map_clients_neq)
qed

lemma foldl_apply_task_snd:
  "snd (foldl (\<lambda>st t. apply_task t st) (ibs, ch) ts) \<longleftrightarrow> ch \<or> \<not> batch_noop ts ibs"
proof (induction ts arbitrary: ibs ch)
  case Nil
  show ?case by simp
next
  case (Cons t ts)
  define ibs' where "ibs' = fst (apply_task t (ibs, False))"
  define ch' where "ch' = snd (apply_task t (ibs, ch))"
  have a: "apply_task t (ibs, ch) = (ibs', ch')"
    using apply_task_fst [of t ibs ch] by (simp add: ibs'_def ch'_def prod_eq_iff)
  have c: "ch' \<longleftrightarrow> ch \<or> map inbound_clients ibs' \<noteq> map inbound_clients ibs"
    unfolding ch'_def ibs'_def by (rule apply_task_snd)
  have "snd (foldl (\<lambda>st t. apply_task t st) (ibs, ch) (t # ts)) =
        snd (foldl (\<lambda>st t. apply_task t st) (ibs', ch') ts)"
    by (simp add: a)
  also have "\<dots> \<longleftrightarrow> ch' \<or> \<not> batch_noop ts ibs'"
    by (rule Cons.IH)
  also have "\<dots> \<longleftrightarrow> ch \<or> \<not> batch_noop (t # ts) ibs"
    using c by (auto simp: ibs'_def)
  finally show ?case .
qed

lemma apply_all_changed: "snd (apply_all tasks ibs) \<longleftrightarrow> \<not> batch_noop tasks ibs"
  by (simp add: apply_all_def foldl_apply_task_snd)

lemma apply_tasks_alt:
  "apply_tasks h tasks (Some cfg) =
     (if snd (apply_all tasks (config_inbounds cfg)) \<and> write_ok h then
        WriteConfig (case inbounds cfg of None \<Rightarrow> cfg
                     | Some ibs \<Rightarrow> cfg\<lparr>inbounds := Some (fst (apply_all tasks (config_inbounds cfg)))\<rparr>)
        # Reload # (case reload_rc h of None \<Rightarrow> [] | Some rc \<Rightarrow> if rc \<noteq> 0 then [Restart] else [])
      else [])"
  by (simp add: apply_tasks_def Let_def)

text \<open>
  C3 (as amended). A batch in which no task, applied in delivery order, changes the
  client list of any listener produces no effect at all: no write, no reload, no
  restart. When \<^verbatim>\<open>apply_tasks\<close> does produce effects, some task of the batch
  changed a client list, the first effect is the write of the configuration, and there
  is exactly one reload attempt.
\<close>

theorem write_only_when_changed:
  "(batch_noop tasks (config_inbounds cfg) \<longrightarrow> apply_tasks h tasks (Some cfg) = [])
   \<and> (apply_tasks h tasks (Some cfg) \<noteq> [] \<longrightarrow>
        \<not> batch_noop tasks (config_inbounds cfg)
        \<and> (\<exists>c. hd (apply_tasks h tasks (Some cfg)) = WriteConfig c)
        \<and> length (filter (\<lambda>e. e = Reload) (apply_tasks h tasks (Some cfg))) = 1)"
proof -
  have noop: "apply_tasks h tasks (Some cfg) = []" if "batch_noop tasks (config_inbounds cfg)"
    using that by (simp add: apply_tasks_alt apply_all_changed)
  have ch: "\<not> batch_noop tasks (config_inbounds cfg)
      \<and> (\<exists>c. hd (apply_tasks h tasks (Some cfg)) = WriteConfig c)
      \<and> length (filter (\<lambda>e. e = Reload) (apply_tasks h tasks (Some cfg))) = 1"
    if "apply_tasks h tasks (Some cfg) \<noteq> []"
  proof -
    from that have c: "snd (apply_all tasks (config_inbounds cfg))" and w: "write_ok h"
      by (auto simp: apply_tasks_alt split: if_splits)
    from c have "\<not> batch_noop tasks (config_inbounds cfg)"
      by (simp add: apply_all_changed)
    moreover have "\<exists>c. hd (apply_tasks h tasks (Some cfg)) = WriteConfig c"
      using c w by (simp add: apply_tasks_alt)
    moreover have "length (filter (\<lambda>e. e = Reload) (apply_tasks h tasks (Some cfg))) = 1"
      using c w by (simp add: apply_tasks_alt split: option.splits)
    ultimately show ?thesis by blast
  qed
  from noop ch show ?thesis by blast
qed

theorem write_only_when_changed_witness:
  "batch_noop [[(''type'', JStr ''del_key''), (''id'', JStr ''k9'')]] (config_inbounds ex_config)
   \<and> apply_tasks ex_host [[(''type'', JStr ''del_key''), (''id'', JStr ''k9'')]] (Some ex_config) = []
   \<and> apply_tasks ex_host [[(''type'', JStr ''add_key''), (''id'', JStr ''k2'')]] (Some ex_config) \<noteq> []
   \<and> \<not> batch_noop [[(''type'', JStr ''add_key''), (''id'', JStr ''k2'')]] (config_inbounds ex_config)
   \<and> length (filter (\<lambda>e. e = Reload)
         (apply_tasks ex_host [[(''type'', JStr ''add_key''), (''id'', JStr ''k2'')]] (Some ex_config))) = 1
   \<and> apply_tasks ex_host [[(''type'', JStr ''add_key''), (''id'', JStr ''k2'')]] (Some ex_config) =
       [WriteConfig \<lparr>inbounds = Some [\<lparr>protocol = Some (JStr ''vless''),
          settings = Some \<lparr>clients = Some [[(''id'', JStr ''k1'')],
            [(''id'', JStr ''k2''), (''flow'', JStr ''xtls-rprx-vision'')]]\<rparr>\<rparr>]\<rparr>,
        Reload, Restart]"
proof -
  have h1: "batch_noop [[(''type'', JStr ''del_key''), (''id'', JStr ''k9'')]] (config_inbounds ex_config)"
    by code_simp
  have e: "apply_tasks ex_host [[(''type'', JStr ''add_key''), (''id'', JStr ''k2'')]] (Some ex_config) =
       [WriteConfig \<lparr>inbounds = Some [\<lparr>protocol = Some (JStr ''vless''),
          settings = Some \<lparr>clients = Some [[(''id'', JStr ''k1'')],
            [(''id'', JStr ''k2''), (''flow'', JStr ''xtls-rprx-vision'')]]\<rparr>\<rparr>]\<rparr>,
        Reload, Restart]"
    by code_simp
  then have h2: "apply_tasks ex_host [[(''type'', JStr ''add_key''), (''id'', JStr ''k2'')]] (Some ex_config) \<noteq> []"
    by simp
  from h1 write_only_when_changed
    [of "[[(''type'', JStr ''del_key''), (''id'', JStr ''k9'')]]" ex_config ex_host]
  have a: "apply_tasks ex_host [[(''type'', JStr ''del_key''), (''id'', JStr ''k9'')]] (Some ex_config) = []"
    by blast
  from h2 write_only_when_changed
    [of "[[(''type'', JStr ''add_key''), (''id'', JStr ''k2'')]]" ex_config ex_host]
  have b: "\<not> batch_noop [[(''type'', JStr ''add_key''), (''id'', JStr ''k2'')]] (config_inbounds ex_config)
      \<and> length (filter (\<lambda>e. e = Reload)
            (apply_tasks ex_host [[(''type'', JStr ''add_key''), (''id'', JStr ''k2'')]] (Some ex_config))) = 1"
    by blast
  from h1 a h2 b e show ?thesis
    by blast
qed

text \<open>
  The claim as stated fails for a batch that adds a key and removes it again: every
  client list ends as it began, yet the configuration is written and a reload is
  attempted.
\<close>

theorem net_noop_batch_is_written:
  "fst (apply_all [[(''type'', JStr ''add_key''), (''id'', JStr ''k1'')],
                   [(''type'', JStr ''del_key''), (''id'', JStr ''k1'')]]
         [\<lparr>protocol = Some (JStr ''vless''), settings = Some \<lparr>clients = Some []\<rparr>\<rparr>])
     = [\<lparr>protocol = Some (JStr ''vless''), settings = Some \<lparr>clients = Some []\<rparr>\<rparr>]
   \<and> apply_tasks \<lparr>write_ok = True, reload_rc = Some 0\<rparr>
        [[(''type'', JStr ''add_key''), (''id'', JStr ''k1'')],
         [(''type'', JStr ''del_key''), (''id'', JStr ''k1'')]]
        (Some \<lparr>inbounds = Some [\<lparr>protocol = Some (JStr ''vless''),
           settings = Some \<lparr>clients = Some []\<rparr>\<rparr>]\<rparr>)
     = [WriteConfig \<lparr>inbounds = Some [\<lparr>protocol = Some (JStr ''vless''),
           settings = Some \<lparr>clients = Some []\<rparr>\<rparr>]\<rparr>, Reload]"
  by code_simp

section \<open>Task queue: status transitions\<close>

lemma add_key_table:
  "snd (add_key env servers db sid em custom) = db
   \<or> snd (add_key env servers db sid em custom) =
       db @ [\<lparr>task_id = next_id db, server_id = sid, task_type = ''add_key'',
              key_id = chosen_key env custom, email = Some (strip em), status = ''pending''\<rparr>]
     \<and> filter (open_task sid (chosen_key env custom) ''add_key'') db = []"
  by (auto simp: add_key_def Let_def split: option.splits one_or_none.splits
      elim: scalar_one_or_none.elims)

lemma remove_key_table:
  "snd (remove_key env servers db sid kid) = db
   \<or> snd (remove_key env servers db sid kid) =
       db @ [\<lparr>task_id = next_id db, server_id = sid, task_type = ''del_key'',
              key_id = kid, email = None, status = ''pending''\<rparr>]
     \<and> filter (open_task sid kid ''del_key'') db = []"
  by (auto simp: remove_key_def Let_def split: option.splits one_or_none.splits
      elim: scalar_one_or_none.elims)

lemma get_tasks_table:
  "snd (get_tasks sid_opt db) = db
   \<or> (\<exists>sid. sid_opt = Some sid \<and> sid \<noteq> [] \<and>
        snd (get_tasks sid_opt db) =
          map (\<lambda>t. if server_id t = sid \<and> status t = ''pending''
                    then t\<lparr>status := ''delivered''\<rparr> else t) db)"
  by (auto simp: get_tasks_def Let_def split: option.splits)

lemma ack_task_table:
  "snd (ack_task tid st db) = db
   \<or> (py_lower st = ''done'' \<or> py_lower st = ''failed'') \<and>
     snd (ack_task tid st db) =
       map (\<lambda>t. if task_id t = tid then t\<lparr>status := py_lower st\<rparr> else t) db"
  by (auto simp: ack_task_def Let_def split: one_or_none.splits)

lemma filter_key_distinct:
  assumes "distinct (map f xs)" and "i < length xs"
  shows "filter (\<lambda>t. f t = f (xs ! i)) xs = [xs ! i]"
  using assms
proof (induction xs arbitrary: i)
  case Nil
  then show ?case by simp
next
  case (Cons x xs)
  show ?case
  proof (cases i)
    case 0
    have "f x \<notin> f ` set xs"
      using Cons.prems(1) by simp
    then have "\<forall>t\<in>set xs. f t \<noteq> f x"
      by (metis imageI)
    then have "filter (\<lambda>t. f t = f x) xs = []"
      by (simp add: filter_empty_conv)
    with 0 show ?thesis by simp
  next
    case (Suc j)
    with Cons.prems have j: "j < length xs" and d: "distinct (map f xs)" and n: "f x \<notin> f ` set xs"
      by auto
    from j n have "f x \<noteq> f (xs ! j)"
      by (metis imageI nth_mem)
    with Suc Cons.IH [OF d j] show ?thesis by simp
  qed
qed

lemma map_key_distinct:
  assumes "distinct (map f xs)" and "i < length xs"
  shows "map (\<lambda>t. if f t = f (xs ! i) then g t else t) xs = xs[i := g (xs ! i)]"
proof (rule nth_equalityI)
  show "length (map (\<lambda>t. if f t = f (xs ! i) then g t else t) xs) = length (xs[i := g (xs ! i)])"
    by simp
next
  fix j
  assume "j < length (map (\<lambda>t. if f t = f (xs ! i) then g t else t) xs)"
  then have j: "j < length xs" by simp
  have "f (xs ! j) = f (xs ! i) \<longleftrightarrow> j = i"
    using assms j by (metis distinct_conv_nth length_map nth_map)
  with j show "map (\<lambda>t. if f t = f (xs ! i) then g t else t) xs ! j = xs[i := g (xs ! i)] ! j"
    by (auto simp: nth_list_update)
qed

lemma ack_task_accepted:
  assumes "distinct (map task_id db)" and "i < length db"
    and "py_lower st = ''done'' \<or> py_lower st = ''failed''"
  shows "ack_task (task_id (db ! i)) st db = (Ok200, db[i := (db ! i)\<lparr>status := py_lower st\<rparr>])"
proof -
  have f: "filter (\<lambda>t. task_id t = task_id (db ! i)) db = [db ! i]"
    using assms(1,2) by (rule filter_key_distinct)
  have m: "map (\<lambda>t. if task_id t = task_id (db ! i) then t\<lparr>status := py_lower st\<rparr> else t) db
      = db[i := (db ! i)\<lparr>status := py_lower st\<rparr>]"
    using assms(1,2) by (rule map_key_distinct)
  show ?thesis
    using assms(3) by (auto simp: ack_task_def Let_def f m)
qed

lemma get_tasks_delivers:
  "sid \<noteq> [] \<Longrightarrow>
   snd (get_tasks (Some sid) db) =
     map (\<lambda>t. if server_id t = sid \<and> status t = ''pending''
               then t\<lparr>status := ''delivered''\<rparr> else t) db"
  by (simp add: get_tasks_def Let_def)

lemma fold_max_ge: "(m :: int) \<le> fold max xs m \<and> (\<forall>x\<in>set xs. x \<le> fold max xs m)"
proof (induction xs arbitrary: m)
  case Nil
  show ?case by simp
next
  case (Cons x xs)
  from Cons.IH [of "max x m"] show ?case by auto
qed

lemma next_id_fresh: "next_id db \<notin> task_id ` set db"
proof
  assume "next_id db \<in> task_id ` set db"
  then have "next_id db \<in> set (map task_id db)" by simp
  with fold_max_ge [of 0 "map task_id db"] have "next_id db \<le> fold max (map task_id db) 0"
    by blast
  then show False by (simp add: next_id_def)
qed

lemma distinct_ids_step:
  assumes "distinct (map task_id db)"
  shows "distinct (map task_id (cp_step c db))"
proof (cases c)
  case (AddKey env servers sid em custom)
  then show ?thesis
    using assms add_key_table [of env servers db sid em custom] next_id_fresh [of db] by auto
next
  case (RemoveKey env servers sid kid)
  then show ?thesis
    using assms remove_key_table [of env servers db sid kid] next_id_fresh [of db] by auto
next
  case (GetTasks sid_opt)
  from get_tasks_table [of sid_opt db] consider
    (same) "cp_step c db = db"
    | (upd) s where "cp_step c db =
        map (\<lambda>t. if server_id t = s \<and> status t = ''pending''
                 then t\<lparr>status := ''delivered''\<rparr> else t) db"
    using GetTasks by auto
  then show ?thesis
  proof cases
    case same
    with assms show ?thesis by simp
  next
    case upd
    have "map task_id (cp_step c db) = map task_id db"
      unfolding upd by (induction db) auto
    with assms show ?thesis by simp
  qed
next
  case (AckTask tid st)
  from ack_task_table [of tid st db] consider
    (same) "cp_step c db = db"
    | (upd) "cp_step c db = map (\<lambda>t. if task_id t = tid then t\<lparr>status := py_lower st\<rparr> else t) db"
    using AckTask by auto
  then show ?thesis
  proof cases
    case same
    with assms show ?thesis by simp
  next
    case upd
    have "map task_id (cp_step c db) = map task_id db"
      unfolding upd by (induction db) auto
    with assms show ?thesis by simp
  qed
qed

lemma reachable_distinct_ids: "reachable db \<Longrightarrow> distinct (map task_id db)"
proof (induction rule: reachable.induct)
  case empty
  show ?case by simp
next
  case (step db c)
  from step.IH show ?case by (rule distinct_ids_step)
qed

text \<open>
  C4 (as amended). Rows are never removed and a new row starts as pending. The status
  of an existing row changes only in two ways: a pull for the row's server turns
  pending into delivered, and an acknowledgment naming the row's id sets done or
  failed. Both happen: a pull for a server marks each of its pending rows delivered and
  touches no other row, and, task ids being a primary key (as they are in every table
  the handlers produce), an acknowledgment with status done or failed in any letter
  case is answered 200 and overwrites the status of the row it names whatever that
  status was, pending, delivered, done or failed; nothing makes delivered a
  precondition.
\<close>

theorem task_status_transitions:
  "length db \<le> length (cp_step c db)
   \<and> (i < length db \<longrightarrow>
        status (cp_step c db ! i) = status (db ! i)
        \<or> (\<exists>sid. c = GetTasks (Some sid) \<and> server_id (db ! i) = sid
              \<and> status (db ! i) = ''pending'' \<and> status (cp_step c db ! i) = ''delivered'')
        \<or> (\<exists>st. c = AckTask (task_id (db ! i)) st
              \<and> status (cp_step c db ! i) = py_lower st
              \<and> (py_lower st = ''done'' \<or> py_lower st = ''failed'')))
   \<and> (length db \<le> j \<and> j < length (cp_step c db) \<longrightarrow>
        status (cp_step c db ! j) = ''pending'')
   \<and> (s \<noteq> [] \<longrightarrow>
        snd (get_tasks (Some s) db) =
          map (\<lambda>t. if server_id t = s \<and> status t = ''pending''
                    then t\<lparr>status := ''delivered''\<rparr> else t) db)
   \<and> (distinct (map task_id db) \<and> i < length db
        \<and> (py_lower st = ''done'' \<or> py_lower st = ''failed'') \<longrightarrow>
        ack_task (task_id (db ! i)) st db =
          (Ok200, db[i := (db ! i)\<lparr>status := py_lower st\<rparr>]))
   \<and> (reachable db \<longrightarrow> distinct (map task_id db))"
proof -
  have only: "length db \<le> length (cp_step c db)
   \<and> (i < length db \<longrightarrow>
        status (cp_step c db ! i) = status (db ! i)
        \<or> (\<exists>sid. c = GetTasks (Some sid) \<and> server_id (db ! i) = sid
              \<and> status (db ! i) = ''pending'' \<and> status (cp_step c db ! i) = ''delivered'')
        \<or> (\<exists>st. c = AckTask (task_id (db ! i)) st
              \<and> status (cp_step c db ! i) = py_lower st
              \<and> (py_lower st = ''done'' \<or> py_lower st = ''failed'')))
   \<and> (length db \<le> j \<and> j < length (cp_step c db) \<longrightarrow>
        status (cp_step c db ! j) = ''pending'')"
  proof (cases c)
    case (AddKey env servers sid em custom)
    then show ?thesis
      using add_key_table [of env servers db sid em custom]
      by (auto simp: nth_append less_Suc_eq)
  next
    case (RemoveKey env servers sid kid)
    then show ?thesis
      using remove_key_table [of env servers db sid kid]
      by (auto simp: nth_append less_Suc_eq)
  next
    case (GetTasks sid_opt)
    then show ?thesis
      using get_tasks_table [of sid_opt db] by (auto split: if_splits)
  next
    case (AckTask tid st)
    then show ?thesis
      using ack_task_table [of tid st db] by (auto split: if_splits)
  qed
  from only get_tasks_delivers [of s db] ack_task_accepted [of db i st]
    reachable_distinct_ids [of db]
  show ?thesis by blast
qed

theorem task_status_transitions_witness:
  "0 < length ex_table
   \<and> status (ex_table ! 0) = ''pending''
   \<and> status (cp_step (GetTasks (Some ''s1'')) ex_table ! 0) = ''delivered''
   \<and> (\<exists>sid. GetTasks (Some ''s1'') = GetTasks (Some sid) \<and> server_id (ex_table ! 0) = sid)
   \<and> length ([] :: server_task list) \<le> 0
   \<and> 0 < length (cp_step (AddKey ex_env ex_servers ''s1'' ''a@b.c'' None) [])
   \<and> status (cp_step (AddKey ex_env ex_servers ''s1'' ''a@b.c'' None) [] ! 0) = ''pending''
   \<and> ''s1'' \<noteq> []
   \<and> map status (snd (get_tasks (Some ''s1'') ex_table)) =
       [''delivered'', ''delivered'', ''done'', ''failed'']
   \<and> distinct (map task_id ex_table)
   \<and> map status ex_table = [''pending'', ''delivered'', ''done'', ''failed'']
   \<and> py_lower ''done'' = ''done'' \<and> py_lower ''FAILED'' = ''failed''
   \<and> ack_task 1 ''done'' ex_table = (Ok200, ex_table[0 := (ex_table ! 0)\<lparr>status := ''done''\<rparr>])
   \<and> ack_task 2 ''done'' ex_table = (Ok200, ex_table[1 := (ex_table ! 1)\<lparr>status := ''done''\<rparr>])
   \<and> ack_task 3 ''FAILED'' ex_table = (Ok200, ex_table[2 := (ex_table ! 2)\<lparr>status := ''failed''\<rparr>])
   \<and> ack_task 4 ''done'' ex_table = (Ok200, ex_table[3 := (ex_table ! 3)\<lparr>status := ''done''\<rparr>])
   \<and> reachable (cp_step (AddKey ex_env ex_servers ''s1'' ''a@b.c'' None) [])
   \<and> distinct (map task_id (cp_step (AddKey ex_env ex_servers ''s1'' ''a@b.c'' None) []))"
proof -
  have h: "0 < length ex_table"
    by (simp add: ex_table_def)
  have p: "status (ex_table ! 0) = ''pending''"
    by (simp add: ex_table_def)
  have d: "status (cp_step (GetTasks (Some ''s1'')) ex_table ! 0) = ''delivered''"
    by code_simp
  have n: "status (cp_step (GetTasks (Some ''s1'')) ex_table ! 0) \<noteq> status (ex_table ! 0)"
    unfolding d p by simp
  have q: "\<not> (\<exists>st. GetTasks (Some ''s1'') = AckTask (task_id (ex_table ! 0)) st
              \<and> status (cp_step (GetTasks (Some ''s1'')) ex_table ! 0) = py_lower st
              \<and> (py_lower st = ''done'' \<or> py_lower st = ''failed''))"
    by simp
  from h task_status_transitions [of ex_table "GetTasks (Some ''s1'')" 0 0]
  have "status (cp_step (GetTasks (Some ''s1'')) ex_table ! 0) = status (ex_table ! 0)
        \<or> (\<exists>sid. GetTasks (Some ''s1'') = GetTasks (Some sid) \<and> server_id (ex_table ! 0) = sid
              \<and> status (ex_table ! 0) = ''pending''
              \<and> status (cp_step (GetTasks (Some ''s1'')) ex_table ! 0) = ''delivered'')
        \<or> (\<exists>st. GetTasks (Some ''s1'') = AckTask (task_id (ex_table ! 0)) st
              \<and> status (cp_step (GetTasks (Some ''s1'')) ex_table ! 0) = py_lower st
              \<and> (py_lower st = ''done'' \<or> py_lower st = ''failed''))"
    by blast
  with n q
  have a: "\<exists>sid. GetTasks (Some ''s1'') = GetTasks (Some sid) \<and> server_id (ex_table ! 0) = sid"
    by blast
  have j1: "length ([] :: server_task list) \<le> 0"
    by simp
  have j2: "0 < length (cp_step (AddKey ex_env ex_servers ''s1'' ''a@b.c'' None) [])"
    by code_simp
  from j1 j2 task_status_transitions [of "[]" "AddKey ex_env ex_servers ''s1'' ''a@b.c'' None" 0 0]
  have b: "status (cp_step (AddKey ex_env ex_servers ''s1'' ''a@b.c'' None) [] ! 0) = ''pending''"
    by blast
  have s1: "''s1'' \<noteq> []"
    by simp
  have g0: "map status (map (\<lambda>t. if server_id t = ''s1'' \<and> status t = ''pending''
                    then t\<lparr>status := ''delivered''\<rparr> else t) ex_table) =
       [''delivered'', ''delivered'', ''done'', ''failed'']"
    by code_simp
  from s1 task_status_transitions [of ex_table _ _ _ "''s1''"]
  have "snd (get_tasks (Some ''s1'') ex_table) =
          map (\<lambda>t. if server_id t = ''s1'' \<and> status t = ''pending''
                    then t\<lparr>status := ''delivered''\<rparr> else t) ex_table"
    by blast
  with g0 have g: "map status (snd (get_tasks (Some ''s1'') ex_table)) =
       [''delivered'', ''delivered'', ''done'', ''failed'']"
    by simp
  have di: "distinct (map task_id ex_table)"
    by code_simp
  have ms: "map status ex_table = [''pending'', ''delivered'', ''done'', ''failed'']"
    by code_simp
  have l1: "py_lower ''done'' = ''done''" and l2: "py_lower ''FAILED'' = ''failed''"
    by code_simp+
  have i0: "0 < length ex_table" and i1: "1 < length ex_table"
    and i2: "2 < length ex_table" and i3: "3 < length ex_table"
    by (simp_all add: ex_table_def)
  have t0: "task_id (ex_table ! 0) = 1" and t1: "task_id (ex_table ! 1) = 2"
    and t2: "task_id (ex_table ! 2) = 3" and t3: "task_id (ex_table ! 3) = 4"
    by (simp_all add: ex_table_def)
  from di i0 l1 task_status_transitions [of ex_table _ 0 _ _ "''done''"]
  have k0: "ack_task 1 ''done'' ex_table = (Ok200, ex_table[0 := (ex_table ! 0)\<lparr>status := ''done''\<rparr>])"
    unfolding t0 l1 by blast
  from di i1 l1 task_status_transitions [of ex_table _ 1 _ _ "''done''"]
  have k1: "ack_task 2 ''done'' ex_table = (Ok200, ex_table[1 := (ex_table ! 1)\<lparr>status := ''done''\<rparr>])"
    unfolding t1 l1 by blast
  from di i2 l2 task_status_transitions [of ex_table _ 2 _ _ "''FAILED''"]
  have k2: "ack_task 3 ''FAILED'' ex_table = (Ok200, ex_table[2 := (ex_table ! 2)\<lparr>status := ''failed''\<rparr>])"
    unfolding t2 l2 by blast
  from di i3 l1 task_status_transitions [of ex_table _ 3 _ _ "''done''"]
  have k3: "ack_task 4 ''done'' ex_table = (Ok200, ex_table[3 := (ex_table ! 3)\<lparr>status := ''done''\<rparr>])"
    unfolding t3 l1 by blast
  have r: "reachable (cp_step (AddKey ex_env ex_servers ''s1'' ''a@b.c'' None) [])"
    by (rule reachable.step [OF reachable.empty])
  from r task_status_transitions [of "cp_step (AddKey ex_env ex_servers ''s1'' ''a@b.c'' None) []"]
  have rd: "distinct (map task_id (cp_step (AddKey ex_env ex_servers ''s1'' ''a@b.c'' None) []))"
    by blast
  from h p d a j1 j2 b s1 g di ms l1 l2 k0 k1 k2 k3 r rd show ?thesis
    by blast
qed

text \<open>
  The claim as stated fails: an acknowledgment for a task that was never pulled takes
  it from pending straight to done.
\<close>

theorem ack_pending_task_is_done:
  "ack_task 1 ''done''
     [\<lparr>task_id = 1, server_id = ''s1'', task_type = ''add_key'', key_id = ''k'',
       email = None, status = ''pending''\<rparr>]
   = (Ok200, [\<lparr>task_id = 1, server_id = ''s1'', task_type = ''add_key'', key_id = ''k'',
       email = None, status = ''done''\<rparr>])"
  by code_simp

section \<open>Task queue: at most one open task per server, key and kind\<close>

lemma filter_map_le:
  assumes "\<And>t. P (f t) \<Longrightarrow> P t" and "length (filter P xs) \<le> n"
  shows "length (filter P (map f xs)) \<le> n"
proof -
  have "length (filter P (map f ys)) \<le> length (filter P ys)" for ys
    using assms(1) by (induction ys) (auto simp: le_SucI)
  from this [of xs] assms(2) show ?thesis by (rule order_trans)
qed

lemma open_task_delivered:
  "open_task sid kid kind (if server_id t = s \<and> status t = ''pending''
      then t\<lparr>status := ''delivered''\<rparr> else t) \<Longrightarrow> open_task sid kid kind t"
  by (auto simp: open_task_def split: if_splits)

lemma open_task_acked:
  "s = ''done'' \<or> s = ''failed'' \<Longrightarrow>
   open_task sid kid kind (if task_id t = tid then t\<lparr>status := s\<rparr> else t) \<Longrightarrow>
   open_task sid kid kind t"
  by (auto simp: open_task_def split: if_splits)

lemma open_count_step:
  assumes "length (filter (open_task sid kid kind) db) \<le> 1"
  shows "length (filter (open_task sid kid kind) (cp_step c db)) \<le> 1"
proof (cases c)
  case (AddKey env servers s em custom)
  show ?thesis
  proof (cases "(s, chosen_key env custom, ''add_key'') = (sid, kid, kind)")
    case True
    then show ?thesis
      using assms AddKey add_key_table [of env servers db s em custom] by auto
  next
    case False
    then show ?thesis
      using assms AddKey add_key_table [of env servers db s em custom]
      by (auto simp: open_task_def)
  qed
next
  case (RemoveKey env servers s k)
  show ?thesis
  proof (cases "(s, k, ''del_key'') = (sid, kid, kind)")
    case True
    then show ?thesis
      using assms RemoveKey remove_key_table [of env servers db s k] by auto
  next
    case False
    then show ?thesis
      using assms RemoveKey remove_key_table [of env servers db s k]
      by (auto simp: open_task_def)
  qed
next
  case (GetTasks sid_opt)
  from get_tasks_table [of sid_opt db] consider
    (same) "cp_step c db = db"
    | (upd) s where "cp_step c db =
        map (\<lambda>t. if server_id t = s \<and> status t = ''pending''
                 then t\<lparr>status := ''delivered''\<rparr> else t) db"
    using GetTasks by auto
  then show ?thesis
  proof cases
    case same
    with assms show ?thesis by simp
  next
    case upd
    show ?thesis
      unfolding upd by (rule filter_map_le [OF open_task_delivered assms])
  qed
next
  case (AckTask tid st)
  from ack_task_table [of tid st db] consider
    (same) "cp_step c db = db"
    | (upd) "py_lower st = ''done'' \<or> py_lower st = ''failed''"
        "cp_step c db = map (\<lambda>t. if task_id t = tid then t\<lparr>status := py_lower st\<rparr> else t) db"
    using AckTask by auto
  then show ?thesis
  proof cases
    case same
    with assms show ?thesis by simp
  next
    case upd
    show ?thesis
      unfolding upd(2) by (rule filter_map_le [OF open_task_acked [OF upd(1)] assms])
  qed
qed

lemma reachable_open_count:
  "reachable db \<Longrightarrow> length (filter (open_task sid kid kind) db) \<le> 1"
proof (induction rule: reachable.induct)
  case empty
  show ?case by simp
next
  case (step db c)
  from step.IH show ?case by (rule open_count_step)
qed

lemma one_or_none_of_filter:
  assumes "length (filter P db) \<le> 1"
  shows "scalar_one_or_none (filter P db) =
           (if list_ex P db then OneRow (hd (filter P db)) else NoRow)"
proof (cases "filter P db")
  case Nil
  then have "\<not> list_ex P db"
    by (simp add: list_ex_iff filter_empty_conv)
  with Nil show ?thesis by simp
next
  case (Cons x xs)
  with assms have "xs = []" by simp
  moreover have "list_ex P db"
    using Cons by (metis filter_empty_conv list.distinct(1) list_ex_iff)
  ultimately show ?thesis using Cons by simp
qed

text \<open>
  C9 (as amended). On every table the handlers can produce: a request for a registered
  server (for \<^verbatim>\<open>add_key\<close> also an active one) with a key that is a UUID is answered
  409 and leaves the table as it was whenever a pending or delivered task with the same
  server, key and kind exists; otherwise it appends one task in status pending when the
  commit succeeds and is answered 500 when it fails. The earlier checks of a handler
  come first, whether or not such a task exists: an unregistered server gives 404, an
  inactive one 400 for \<^verbatim>\<open>add_key\<close>, a key that is not a UUID 400, and none of them
  changes the table.
\<close>

theorem duplicate_task_rejected:
  assumes "reachable db"
  shows "(map_of servers sid = Some True \<and> uuid_ok env (chosen_key env custom) \<longrightarrow>
           (if list_ex (open_task sid (chosen_key env custom) ''add_key'') db
            then add_key env servers db sid em custom = (HttpError 409, db)
            else if commit_ok env
            then add_key env servers db sid em custom =
                   (Created (next_id db) (chosen_key env custom),
                    db @ [\<lparr>task_id = next_id db, server_id = sid, task_type = ''add_key'',
                           key_id = chosen_key env custom, email = Some (strip em),
                           status = ''pending''\<rparr>])
            else add_key env servers db sid em custom = (HttpError 500, db)))
       \<and> (map_of servers sid \<noteq> None \<and> uuid_ok env kid \<longrightarrow>
           (if list_ex (open_task sid kid ''del_key'') db
            then remove_key env servers db sid kid = (HttpError 409, db)
            else if commit_ok env
            then remove_key env servers db sid kid =
                   (Created (next_id db) kid,
                    db @ [\<lparr>task_id = next_id db, server_id = sid, task_type = ''del_key'',
                           key_id = kid, email = None, status = ''pending''\<rparr>])
            else remove_key env servers db sid kid = (HttpError 500, db)))
       \<and> (map_of servers sid = None \<longrightarrow>
            add_key env servers db sid em custom = (HttpError 404, db)
            \<and> remove_key env servers db sid kid = (HttpError 404, db))
       \<and> (map_of servers sid = Some False \<longrightarrow>
            add_key env servers db sid em custom = (HttpError 400, db))
       \<and> (map_of servers sid = Some True \<and> \<not> uuid_ok env (chosen_key env custom) \<longrightarrow>
            add_key env servers db sid em custom = (HttpError 400, db))
       \<and> (map_of servers sid \<noteq> None \<and> \<not> uuid_ok env kid \<longrightarrow>
            remove_key env servers db sid kid = (HttpError 400, db))"
proof -
  have a: "scalar_one_or_none (filter (open_task sid k kind) db) =
      (if list_ex (open_task sid k kind) db
       then OneRow (hd (filter (open_task sid k kind) db)) else NoRow)" for k kind
    by (rule one_or_none_of_filter) (rule reachable_open_count [OF assms])
  have add: "map_of servers sid = Some True \<and> uuid_ok env (chosen_key env custom) \<longrightarrow>
           (if list_ex (open_task sid (chosen_key env custom) ''add_key'') db
            then add_key env servers db sid em custom = (HttpError 409, db)
            else if commit_ok env
            then add_key env servers db sid em custom =
                   (Created (next_id db) (chosen_key env custom),
                    db @ [\<lparr>task_id = next_id db, server_id = sid, task_type = ''add_key'',
                           key_id = chosen_key env custom, email = Some (strip em),
                           status = ''pending''\<rparr>])
            else add_key env servers db sid em custom = (HttpError 500, db))"
    by (simp add: add_key_def Let_def a)
  have del: "map_of servers sid \<noteq> None \<and> uuid_ok env kid \<longrightarrow>
           (if list_ex (open_task sid kid ''del_key'') db
            then remove_key env servers db sid kid = (HttpError 409, db)
            else if commit_ok env
            then remove_key env servers db sid kid =
                   (Created (next_id db) kid,
                    db @ [\<lparr>task_id = next_id db, server_id = sid, task_type = ''del_key'',
                           key_id = kid, email = None, status = ''pending''\<rparr>])
            else remove_key env servers db sid kid = (HttpError 500, db))"
    by (auto simp: remove_key_def Let_def a)
  have g1: "map_of servers sid = None \<longrightarrow>
            add_key env servers db sid em custom = (HttpError 404, db)
            \<and> remove_key env servers db sid kid = (HttpError 404, db)"
    by (simp add: add_key_def remove_key_def)
  have g2: "map_of servers sid = Some False \<longrightarrow>
            add_key env servers db sid em custom = (HttpError 400, db)"
    by (simp add: add_key_def)
  have g3: "map_of servers sid = Some True \<and> \<not> uuid_ok env (chosen_key env custom) \<longrightarrow>
            add_key env servers db sid em custom = (HttpError 400, db)"
    by (simp add: add_key_def Let_def)
  have g4: "map_of servers sid \<noteq> None \<and> \<not> uuid_ok env kid \<longrightarrow>
            remove_key env servers db sid kid = (HttpError 400, db)"
    by (auto simp: remove_key_def)
  from add del g1 g2 g3 g4 show ?thesis
    by blast
qed

theorem duplicate_task_rejected_witness:
  "reachable ex_queue
   \<and> commit_ok ex_env
   \<and> map_of ex_servers ''s1'' = Some True
   \<and> uuid_ok ex_env (chosen_key ex_env (Some ''k1''))
   \<and> list_ex (open_task ''s1'' (chosen_key ex_env (Some ''k1'')) ''add_key'') ex_queue
   \<and> add_key ex_env ex_servers ex_queue ''s1'' ''x@y.z'' (Some ''k1'') = (HttpError 409, ex_queue)
   \<and> map_of ex_servers ''s1'' \<noteq> None
   \<and> uuid_ok ex_env ''k1''
   \<and> \<not> list_ex (open_task ''s1'' ''k1'' ''del_key'') ex_queue
   \<and> remove_key ex_env ex_servers ex_queue ''s1'' ''k1'' =
       (Created (next_id ex_queue) ''k1'',
        ex_queue @ [\<lparr>task_id = next_id ex_queue, server_id = ''s1'', task_type = ''del_key'',
                     key_id = ''k1'', email = None, status = ''pending''\<rparr>])
   \<and> next_id ex_queue = 2"
proof -
  have r: "reachable ex_queue"
    unfolding ex_queue_def by (rule reachable.step [OF reachable.empty])
  have c: "commit_ok ex_env"
    by (simp add: ex_env_def)
  have s: "map_of ex_servers ''s1'' = Some True"
    by (simp add: ex_servers_def)
  have u: "uuid_ok ex_env (chosen_key ex_env (Some ''k1''))"
    by code_simp
  have e: "list_ex (open_task ''s1'' (chosen_key ex_env (Some ''k1'')) ''add_key'') ex_queue"
    by code_simp
  have s': "map_of ex_servers ''s1'' \<noteq> None"
    by (simp add: ex_servers_def)
  have u': "uuid_ok ex_env ''k1''"
    by (simp add: ex_env_def)
  have e': "\<not> list_ex (open_task ''s1'' ''k1'' ''del_key'') ex_queue"
    by code_simp
  have i: "next_id ex_queue = 2"
    by code_simp
  note t = duplicate_task_rejected [OF r, where servers = ex_servers and sid = "''s1''"
      and env = ex_env and custom = "Some ''k1''" and em = "''x@y.z''" and kid = "''k1''"]
  from t s u e
  have a: "add_key ex_env ex_servers ex_queue ''s1'' ''x@y.z'' (Some ''k1'') = (HttpError 409, ex_queue)"
    by simp
  from t s' u' e' c
  have b: "remove_key ex_env ex_servers ex_queue ''s1'' ''k1'' =
       (Created (next_id ex_queue) ''k1'',
        ex_queue @ [\<lparr>task_id = next_id ex_queue, server_id = ''s1'', task_type = ''del_key'',
                     key_id = ''k1'', email = None, status = ''pending''\<rparr>])"
    by simp
  from r c s u e a s' u' e' b i show ?thesis
    by blast
qed

text \<open>
  The claim as stated fails where an earlier check of the handler answers first: with
  the server inactive (or unregistered) a request that duplicates a pending task gets
  400 (or 404), not 409; and a request with no such task but a key that is not a UUID
  creates nothing.
\<close>

theorem duplicate_on_inactive_server_is_400:
  "list_ex (open_task ''s1'' ''k1'' ''add_key'') ex_queue
   \<and> chosen_key ex_env (Some ''k1'') = ''k1''
   \<and> add_key ex_env [(''s1'', False)] ex_queue ''s1'' ''x@y.z'' (Some ''k1'') = (HttpError 400, ex_queue)
   \<and> add_key ex_env [] ex_queue ''s1'' ''x@y.z'' (Some ''k1'') = (HttpError 404, ex_queue)
   \<and> \<not> list_ex (open_task ''s1'' ''not-a-uuid'' ''del_key'') ex_queue
   \<and> remove_key ex_env ex_servers ex_queue ''s1'' ''not-a-uuid'' = (HttpError 400, ex_queue)"
  by code_simp

section \<open>Heartbeat ingestion: the reply to an unparsable timestamp\<close>

text \<open>
  C5. The claim does not hold of the code: the 400 raised for an unparsable timestamp
  is caught by the outer handler and answered as 500. Here \<^verbatim>\<open>fromisoformat\<close>
  accepts one well-formed string and the request carries an unparsable
  \<^verbatim>\<open>generated_at\<close>.
\<close>

theorem unparsable_timestamp_gives_500:
  "parse_both (\<lambda>s. if s = ''2024-01-01T00:00:00+00:00'' then Some (0::int) else None)
     \<lparr>hb_server_id = ''s1'', generated_at = ''yesterday'',
      ready_at = ''2024-01-01T00:00:00Z''\<rparr> = Inl (HTTPException 400)
   \<and> receive_heartbeat (\<lambda>s. if s = ''2024-01-01T00:00:00+00:00'' then Some (0::int) else None)
     True 7
     \<lparr>hb_server_id = ''s1'', generated_at = ''yesterday'',
      ready_at = ''2024-01-01T00:00:00Z''\<rparr> = Inl (HTTPException 500)
   \<and> receive_heartbeat (\<lambda>s. if s = ''2024-01-01T00:00:00+00:00'' then Some (0::int) else None)
     True 7
     \<lparr>hb_server_id = ''s1'', generated_at = ''2024-01-01T00:00:00Z'',
      ready_at = ''2024-01-01T00:00:00Z''\<rparr> = Inr 7"
  by code_simp

text \<open>Whatever the request and the database do, the handler never answers 400.\<close>

theorem receive_heartbeat_never_400:
  "receive_heartbeat f db_ok new_id hb \<noteq> Inl (HTTPException 400)"
  by (simp add: receive_heartbeat_def split: sum.splits)

section \<open>LatencyProbe: percentiles and the fail-safe\<close>

lemma py_round_cases: "py_round x = \<lfloor>x\<rfloor> \<or> py_round x = \<lfloor>x\<rfloor> + 1 \<and> of_int \<lfloor>x\<rfloor> < x"
  by (auto simp: py_round_def Let_def)

lemma py_round_bounds:
  assumes "0 \<le> x" and "x \<le> of_int m"
  shows "0 \<le> py_round x \<and> py_round x \<le> m"
proof -
  have f0: "0 \<le> \<lfloor>x\<rfloor>" using assms(1) by simp
  have fm: "\<lfloor>x\<rfloor> \<le> m" using assms(2) by (simp add: floor_le_iff)
  from py_round_cases [of x] show ?thesis
  proof
    assume "py_round x = \<lfloor>x\<rfloor>"
    with f0 fm show ?thesis by simp
  next
    assume a: "py_round x = \<lfloor>x\<rfloor> + 1 \<and> of_int \<lfloor>x\<rfloor> < x"
    then have "of_int \<lfloor>x\<rfloor> < (of_int m :: rat)" using assms(2) by simp
    then have "\<lfloor>x\<rfloor> < m" by simp
    with a f0 show ?thesis by simp
  qed
qed

lemma nearest_rank_lt: "0 < n \<Longrightarrow> nearest_rank n p < n"
  by (simp add: nearest_rank_def)

lemma nearest_rank_unit:
  assumes "0 < n" and "0 \<le> p" and "p \<le> 1"
  shows "int (nearest_rank n p) = py_round (p * of_int (int n - 1))"
proof -
  have m: "(0::rat) \<le> of_int (int n - 1)" using assms(1) by simp
  have "0 \<le> p * of_int (int n - 1)"
    using assms(2) m by (rule mult_nonneg_nonneg)
  moreover have "p * of_int (int n - 1) \<le> of_int (int n - 1)"
    using mult_right_mono [OF assms(3) m] by simp
  ultimately have "0 \<le> py_round (p * of_int (int n - 1))
      \<and> py_round (p * of_int (int n - 1)) \<le> int n - 1"
    by (rule py_round_bounds)
  then show ?thesis by (simp add: nearest_rank_def)
qed

lemma pct_nearest_rank: "xs \<noteq> [] \<Longrightarrow> pct xs p = xs ! nearest_rank (length xs) p"
  by (simp add: pct_def nearest_rank_def Let_def mult.commute)

text \<open>
  C6. When the probe succeeds and at least one round-trip time is parsed, the
  percentile for \<open>p\<close> is the element of the sorted samples at the nearest-rank index
  \<open>round (p \<times> (n - 1))\<close> clamped to \<open>[0, n - 1]\<close>; the index is in range, and for
  \<open>p\<close> between 0 and 1 the clamp does nothing. \<^verbatim>\<open>measure_ping\<close> returns the
  percentiles for 0.5 and 0.95.
\<close>

theorem measure_ping_percentiles:
  assumes "fst (run_cmd pr) = 0"
    and "List.map_filter time_re (splitlines (snd (run_cmd pr))) = ts"
    and "ts \<noteq> []"
  shows "measure_ping loss_re time_re pr =
           (sort ts ! nearest_rank (length ts) (1 / 2),
            sort ts ! nearest_rank (length ts) (95 / 100),
            case loss_re (snd (run_cmd pr)) of None \<Rightarrow> 100 | Some l \<Rightarrow> l)
       \<and> pct (sort ts) p = sort ts ! nearest_rank (length ts) p
       \<and> nearest_rank (length ts) p < length ts
       \<and> (0 \<le> p \<and> p \<le> 1 \<longrightarrow>
            int (nearest_rank (length ts) p) = py_round (p * of_int (int (length ts) - 1)))"
proof -
  have l: "length (sort ts) = length ts"
    by simp
  have s: "sort ts \<noteq> []"
    using assms(3) l by (metis length_0_conv)
  have n: "0 < length ts" using assms(3) by simp
  have a: "measure_ping loss_re time_re pr =
           (sort ts ! nearest_rank (length ts) (1 / 2),
            sort ts ! nearest_rank (length ts) (95 / 100),
            case loss_re (snd (run_cmd pr)) of None \<Rightarrow> 100 | Some l \<Rightarrow> l)"
    using assms pct_nearest_rank [OF s] by (simp add: measure_ping_def Let_def l)
  have b: "pct (sort ts) p = sort ts ! nearest_rank (length ts) p"
    using pct_nearest_rank [OF s, of p] by (simp add: l)
  show ?thesis
    using a b nearest_rank_lt [OF n] nearest_rank_unit [OF n] by blast
qed

theorem measure_ping_percentiles_witness:
  "fst (run_cmd (Exited 0 ex_ping_output)) = 0
   \<and> List.map_filter ex_time_re (splitlines (snd (run_cmd (Exited 0 ex_ping_output)))) = [30, 10, 40, 20]
   \<and> [30, 10, 40, 20] \<noteq> ([] :: rat list)
   \<and> sort [30, 10, 40, 20 :: rat] = [10, 20, 30, 40]
   \<and> nearest_rank 4 (1 / 2) = 2 \<and> nearest_rank 4 (95 / 100) = 3
   \<and> (0 :: rat) \<le> 1 / 2 \<and> (1 / 2 :: rat) \<le> 1
   \<and> int (nearest_rank (length [30, 10, 40, 20 :: rat]) (1 / 2)) =
       py_round (1 / 2 * of_int (int (length [30, 10, 40, 20 :: rat]) - 1))
   \<and> measure_ping (\<lambda>out. Some 0) ex_time_re (Exited 0 ex_ping_output) = (30, 40, 0)"
proof -
  have h1: "fst (run_cmd (Exited 0 ex_ping_output)) = 0"
    by simp
  have h2: "List.map_filter ex_time_re (splitlines (snd (run_cmd (Exited 0 ex_ping_output))))
      = [30, 10, 40, 20]"
    by code_simp
  have h3: "[30, 10, 40, 20] \<noteq> ([] :: rat list)"
    by simp
  have h4: "(0 :: rat) \<le> 1 / 2 \<and> (1 / 2 :: rat) \<le> 1"
    by simp
  have e1: "sort [30, 10, 40, 20 :: rat] = [10, 20, 30, 40]"
    by code_simp
  have e2: "nearest_rank 4 (1 / 2) = 2" and e3: "nearest_rank 4 (95 / 100) = 3"
    by code_simp+
  note t = measure_ping_percentiles [OF h1 h2 h3, of "\<lambda>out. Some 0" "1 / 2"]
  from t h4
  have u: "int (nearest_rank (length [30, 10, 40, 20 :: rat]) (1 / 2)) =
       py_round (1 / 2 * of_int (int (length [30, 10, 40, 20 :: rat]) - 1))"
    by blast
  from t
  have m: "measure_ping (\<lambda>out. Some 0) ex_time_re (Exited 0 ex_ping_output) =
      (sort [30, 10, 40, 20] ! nearest_rank (length [30, 10, 40, 20 :: rat]) (1 / 2),
       sort [30, 10, 40, 20] ! nearest_rank (length [30, 10, 40, 20 :: rat]) (95 / 100),
       case (\<lambda>out. Some 0) (snd (run_cmd (Exited 0 ex_ping_output))) of None \<Rightarrow> 100 | Some l \<Rightarrow> l)"
    by blast
  have r: "(sort [30, 10, 40, 20] ! nearest_rank (length [30, 10, 40, 20 :: rat]) (1 / 2),
       sort [30, 10, 40, 20] ! nearest_rank (length [30, 10, 40, 20 :: rat]) (95 / 100),
       case (\<lambda>out. Some 0) (snd (run_cmd (Exited 0 ex_ping_output))) of None \<Rightarrow> 100 | Some l \<Rightarrow> l)
      = (30 :: rat, 40 :: rat, 0 :: rat)"
    by code_simp
  from m r have "measure_ping (\<lambda>out. Some 0) ex_time_re (Exited 0 ex_ping_output) = (30, 40, 0)"
    by (rule trans)
  with h1 h2 h3 h4 e1 e2 e3 u show ?thesis by blast
qed

text \<open>
  C7. A ping subprocess that ends with a nonzero exit code, times out or cannot be
  started gives loss 100 and both percentiles 0. A run with exit code 0 from which no
  round-trip time is parsed gives both percentiles 0 and the loss parsed from the
  output (100 when the output carries no loss figure).
\<close>

theorem measure_ping_fail_safe:
  "(fst (run_cmd pr) \<noteq> 0 \<longrightarrow> measure_ping loss_re time_re pr = (0, 0, 100))
   \<and> measure_ping loss_re time_re TimedOut = (0, 0, 100)
   \<and> measure_ping loss_re time_re SpawnFailed = (0, 0, 100)
   \<and> (fst (run_cmd pr) = 0 \<and> List.map_filter time_re (splitlines (snd (run_cmd pr))) = [] \<longrightarrow>
        measure_ping loss_re time_re pr =
          (0, 0, case loss_re (snd (run_cmd pr)) of None \<Rightarrow> 100 | Some l \<Rightarrow> l))"
  by (simp add: measure_ping_def Let_def)

theorem measure_ping_fail_safe_witness:
  "fst (run_cmd (Exited 2 ''ping: unknown host'')) \<noteq> 0
   \<and> measure_ping (\<lambda>out. None) (\<lambda>line. None) (Exited 2 ''ping: unknown host'') = (0, 0, 100)
   \<and> fst (run_cmd (Exited 0 ''25% packet loss'')) = 0
   \<and> List.map_filter (\<lambda>line. None :: rat option)
         (splitlines (snd (run_cmd (Exited 0 ''25% packet loss'')))) = []
   \<and> measure_ping (\<lambda>out. Some 25) (\<lambda>line. None) (Exited 0 ''25% packet loss'') = (0, 0, 25)"
proof -
  have h1: "fst (run_cmd (Exited 2 ''ping: unknown host'')) \<noteq> 0"
    by simp
  have h2: "fst (run_cmd (Exited 0 ''25% packet loss'')) = 0"
    by simp
  have h3: "List.map_filter (\<lambda>line. None :: rat option)
         (splitlines (snd (run_cmd (Exited 0 ''25% packet loss'')))) = []"
    by (simp add: map_filter_def)
  from h1 measure_ping_fail_safe
    [of "Exited 2 ''ping: unknown host''" "\<lambda>out. None" "\<lambda>line. None"]
  have a: "measure_ping (\<lambda>out. None) (\<lambda>line. None) (Exited 2 ''ping: unknown host'') = (0, 0, 100)"
    by blast
  from h2 h3 measure_ping_fail_safe
    [of "Exited 0 ''25% packet loss''" "\<lambda>out. Some 25" "\<lambda>line. None"]
  have b: "measure_ping (\<lambda>out. Some 25) (\<lambda>line. None) (Exited 0 ''25% packet loss'') = (0, 0, 25)"
    by simp
  from h1 h2 h3 a b show ?thesis by blast
qed

section \<open>RateEstimator: a counter reset\<close>

text \<open>
  C2. The claim does not hold of the code. After a counter reset (every current counter
  below the previous one, one second elapsed) the packet and connection rates are
  clamped to 0, but the two bandwidth fields are not clamped and come out negative.
\<close>

theorem counter_reset_negative_bandwidth:
  "bw_rx_mbps (derive_rates ex_last ''eth0'' ex_reading) = - 8
   \<and> bw_tx_mbps (derive_rates ex_last ''eth0'' ex_reading) = - (4 / 5)
   \<and> pps_rx (derive_rates ex_last ''eth0'' ex_reading) = 0
   \<and> pps_tx (derive_rates ex_last ''eth0'' ex_reading) = 0
   \<and> conn_est_rate (derive_rates ex_last ''eth0'' ex_reading) = 0"
  by code_simp

text \<open>
  The packet rates and the connection-establishment rate are never negative, whatever
  the two samples are.
\<close>

theorem packet_and_connection_rates_clamped:
  "0 \<le> pps_rx (derive_rates st net_iface r)
   \<and> 0 \<le> pps_tx (derive_rates st net_iface r)
   \<and> 0 \<le> conn_est_rate (derive_rates st net_iface r)"
  by (simp add: derive_rates_def Let_def)

section \<open>CounterSampler: a missing or malformed source\<close>

text \<open>
  C8. The claim does not hold of the code. With \<^verbatim>\<open>/proc/stat\<close> missing,
  \<^verbatim>\<open>read_proc\<close> gives the empty string and \<^verbatim>\<open>read_cpu\<close> takes line 0 of no
  lines: IndexError leaves the sampling step. With a non-numeric field in the line of
  the interface, \<^verbatim>\<open>read_dev_counters\<close> raises ValueError. With both sources
  well-formed the step returns its values.
\<close>

theorem missing_stat_file_raises:
  "read_proc ex_fs_no_stat ''/proc/stat'' = Inr []
   \<and> cpu_sample ex_fs_no_stat ex_fs_no_stat = Inl IndexError
   \<and> sample_step ex_fs_no_stat ex_fs_no_stat ex_fs_no_stat ''eth0'' = Inl IndexError
   \<and> read_dev_counters ex_fs_bad_dev ''eth0'' = Inl ValueError
   \<and> sample_step ex_fs_bad_dev ex_fs_bad_dev ex_fs_bad_dev ''eth0'' = Inl ValueError
   \<and> sample_step (ex_fs_good ''cpu  100 0 50 800 50 0 10 0 0 0'')
        (ex_fs_good ''cpu  110 0 55 830 52 0 13 0 0 0'')
        (ex_fs_good ''cpu  110 0 55 830 52 0 13 0 0 0'') ''eth0''
       = Inr ((36, 6), (100, 2, 0, 0, 300, 4, 0, 0))"
  by code_simp

section \<open>ConfigMutator on the configuration as read\<close>

lemma and_then_Inr [simp]: "and_then (Inr x) f = f x"
  by (simp add: and_then_def)

lemma and_then_Inl [simp]: "and_then (Inl e) f = Inl e"
  by (simp add: and_then_def)

lemma of_jval_eq_str [simp]: "of_jval v = JsStr s \<longleftrightarrow> v = JStr s"
  by (cases v) auto












section \<open>Acknowledgment on the pull path\<close>












end
